theory Spec2Isabelle
  imports Main "HOL-Library.Multiset"
begin

section \<open>Calendar arithmetic of the datetime values the script handles\<close>

text \<open>
  The script \<^verbatim>\<open>extract_history.py\<close> works on Python \<^verbatim>\<open>datetime\<close> values. A naive
  datetime is the record of its fields. The helper functions below are the ones the
  standard library uses for \<^verbatim>\<open>toordinal\<close>, \<^verbatim>\<open>weekday\<close> and comparison: the proleptic
  Gregorian ordinal of a date (day 1 is 0001-01-01) and the weekday derived from it
  (Monday is 0). Python's \<^verbatim>\<open>//\<close> is floor division, as \<open>div\<close> on \<open>int\<close> is.
\<close>

record datetime =
  year :: int
  month :: int
  day :: int
  hour :: int
  minute :: int
  second :: int
  microsecond :: int

definition is_leap :: "int \<Rightarrow> bool" where
  "is_leap y = (y mod 4 = 0 \<and> (y mod 100 \<noteq> 0 \<or> y mod 400 = 0))"

definition days_before_year :: "int \<Rightarrow> int" where
  "days_before_year y = (let y' = y - 1 in y' * 365 + y' div 4 - y' div 100 + y' div 400)"

text \<open>
  The month tables. A month outside 1..12 never reaches them, because the constructor
  validates its fields (see \<open>datetime_new\<close>); the last branch only makes the functions total.
\<close>

definition days_in_month :: "int \<Rightarrow> int \<Rightarrow> int" where
  "days_in_month y m =
     (if m = 2 then (if is_leap y then 29 else 28)
      else if m = 4 \<or> m = 6 \<or> m = 9 \<or> m = 11 then 30
      else 31)"

definition days_before_month :: "int \<Rightarrow> int \<Rightarrow> int" where
  "days_before_month y m =
     (if m = 1 then 0 else if m = 2 then 31 else if m = 3 then 59 else if m = 4 then 90
      else if m = 5 then 120 else if m = 6 then 151 else if m = 7 then 181
      else if m = 8 then 212 else if m = 9 then 243 else if m = 10 then 273
      else if m = 11 then 304 else 334)
     + (if m > 2 \<and> is_leap y then 1 else 0)"

definition ymd2ord :: "int \<Rightarrow> int \<Rightarrow> int \<Rightarrow> int" where
  "ymd2ord y m d = days_before_year y + days_before_month y m + d"

definition toordinal :: "datetime \<Rightarrow> int" where
  "toordinal dt = ymd2ord (year dt) (month dt) (day dt)"

definition weekday :: "datetime \<Rightarrow> int" where
  "weekday dt = (toordinal dt + 6) mod 7"

text \<open>
  An aware datetime carries its local fields and the UTC offset of its zone at that
  moment, in seconds (US Eastern daylight time is \<open>- 14400\<close>). Two aware datetimes with
  different zone objects compare by the instant they denote; the instant is counted in
  microseconds from 0001-01-01T00:00:00 UTC.
\<close>

record aware =
  local_fields :: datetime
  utcoffset :: int

type_synonym instant = int

definition naive_us :: "datetime \<Rightarrow> int" where
  "naive_us dt =
     (((toordinal dt * 24 + hour dt) * 60 + minute dt) * 60 + second dt) * 1000000
       + microsecond dt"

definition instant_of :: "aware \<Rightarrow> instant" where
  "instant_of a = naive_us (local_fields a) - utcoffset a * 1000000"

text \<open>
  \<^verbatim>\<open>target_time.astimezone(pytz.UTC)\<close> keeps the instant and moves the offset to zero;
  the resolver only compares the result, so the model keeps the instant.
\<close>

definition astimezone_utc :: "aware \<Rightarrow> instant" where
  "astimezone_utc a = instant_of a"

section \<open>Remote services and exceptions\<close>

text \<open>
  The exceptions that can leave a library call: \<^verbatim>\<open>ValueError\<close> and
  \<^verbatim>\<open>OverflowError\<close> from a datetime constructor, \<^verbatim>\<open>HttpError\<close> from a request (an
  error response of the API; the only class the script catches by name), and any other
  exception a request may raise, such as a timeout or a lost connection.
\<close>

datatype exn = ValueError | OverflowError | HttpError string | OtherError string

text \<open>
  A revision record as the Drive API lists it. The RFC 3339 string of \<^verbatim>\<open>modifiedTime\<close>
  (always in UTC, ending in \<^verbatim>\<open>Z\<close>) is represented by the fields it spells.
\<close>

record revision =
  rev_id :: string
  modifiedTime :: datetime

text \<open>
  \<^verbatim>\<open>datetime.fromisoformat(rev['modifiedTime'].replace('Z', '+00:00'))\<close>: the aware
  datetime with these fields and offset zero. The resolver computes it for every
  revision it compares (the local \<^verbatim>\<open>rev_time\<close>); it is compared with the target, an aware
  datetime of another zone object, by instant.
\<close>

definition fromisoformat_z :: "datetime \<Rightarrow> aware" where
  "fromisoformat_z dt = \<lparr>local_fields = dt, utcoffset = 0\<rparr>"

definition rev_time :: "revision \<Rightarrow> instant" where
  "rev_time r = instant_of (fromisoformat_z (modifiedTime r))"

record list_response =
  revisions :: "revision list option"
  nextPageToken :: "string option"

type_synonym row = "string list"
type_synonym grid = "row list"

record get_response =
  resp_values :: "grid option"

text \<open>
  The remote side is a state \<open>'w\<close> that every request may read and change. A request
  returns either an exception or a response, together with the next state.
\<close>

record 'w services =
  revisions_list :: "string \<Rightarrow> string option \<Rightarrow> 'w \<Rightarrow> (exn + list_response) \<times> 'w"
  values_get :: "string \<Rightarrow> string \<Rightarrow> 'w \<Rightarrow> (exn + get_response) \<times> 'w"
  values_clear :: "string \<Rightarrow> string \<Rightarrow> 'w \<Rightarrow> (exn + unit) \<times> 'w"
  values_update :: "string \<Rightarrow> string \<Rightarrow> string \<Rightarrow> grid \<Rightarrow> 'w \<Rightarrow> (exn + nat) \<times> 'w"

text \<open>Python truthiness of an optional string: \<^verbatim>\<open>None\<close> and \<^verbatim>\<open>''\<close> are false.\<close>

fun truthy :: "string option \<Rightarrow> bool" where
  "truthy None = False"
| "truthy (Some s) = (s \<noteq> [])"

section \<open>The Revision Resolver: \<^verbatim>\<open>find_best_revision\<close>\<close>

text \<open>
  Lines 72-91: the paginated listing. The first request carries no page token; each
  further one carries the token of the previous response. The loop ends when a response
  has no (or an empty) token; nothing bounds the number of pages, so not returning is
  the value \<open>None\<close>. An exception ends the loop with that exception.
\<close>

partial_function (option) fetch_pages ::
  "'w services \<Rightarrow> string \<Rightarrow> string option \<Rightarrow> revision list \<Rightarrow> 'w
     \<Rightarrow> ((exn + revision list) \<times> 'w) option" where
  "fetch_pages svc file_id page_token all_revisions w =
     (case revisions_list svc file_id (if truthy page_token then page_token else None) w of
        (Inl e, w') \<Rightarrow> Some (Inl e, w')
      | (Inr response, w') \<Rightarrow>
          (let all_revisions' =
                 all_revisions @ (case revisions response of None \<Rightarrow> [] | Some rs \<Rightarrow> rs);
               page_token' = nextPageToken response
           in if \<not> truthy page_token' then Some (Inr all_revisions', w')
              else fetch_pages svc file_id page_token' all_revisions' w'))"

text \<open>
  Lines 100-107: the scan for the earliest revision at or after the target. The
  candidate is replaced only by a strictly earlier one.
\<close>

fun scan_after :: "instant \<Rightarrow> revision list \<Rightarrow> revision option \<Rightarrow> revision option" where
  "scan_after target_utc [] best_revision = best_revision"
| "scan_after target_utc (r # revs) best_revision =
     (if rev_time r \<ge> target_utc then
        (case best_revision of
           None \<Rightarrow> scan_after target_utc revs (Some r)
         | Some b \<Rightarrow>
            if rev_time r < rev_time b
            then scan_after target_utc revs (Some r)
            else scan_after target_utc revs best_revision)
      else scan_after target_utc revs best_revision)"

text \<open>
  Lines 111-115: the fallback walks the reversed list and stops at the first revision
  at or before the target.
\<close>

fun scan_before :: "instant \<Rightarrow> revision list \<Rightarrow> revision option" where
  "scan_before target_utc [] = None"
| "scan_before target_utc (r # revs) =
     (if rev_time r \<le> target_utc then Some r else scan_before target_utc revs)"

text \<open>
  Lines 93-122: the selection on the fetched list. A revision record is a non-empty
  dictionary, hence true in \<^verbatim>\<open>if best_revision:\<close>. The result \<open>None\<close> is Python's
  \<^verbatim>\<open>None\<close>.
\<close>

definition select_revision :: "revision list \<Rightarrow> aware \<Rightarrow> string option" where
  "select_revision all_revisions target_time =
     (if all_revisions = [] then None
      else
        let target_utc = astimezone_utc target_time;
            best_revision = scan_after target_utc all_revisions None;
            best_revision' =
              (case best_revision of
                 None \<Rightarrow> scan_before target_utc (rev all_revisions)
               | Some b \<Rightarrow> Some b)
        in case best_revision' of
             None \<Rightarrow> None
           | Some b \<Rightarrow> Some (rev_id b))"

text \<open>
  The whole function: an \<^verbatim>\<open>HttpError\<close> of the listing is caught and gives \<^verbatim>\<open>None\<close>;
  any other exception leaves the function.
\<close>

definition find_best_revision ::
  "'w services \<Rightarrow> string \<Rightarrow> aware \<Rightarrow> 'w \<Rightarrow> ((exn + string option) \<times> 'w) option" where
  "find_best_revision svc file_id target_time w =
     (case fetch_pages svc file_id None [] w of
        None \<Rightarrow> None
      | Some (Inl (HttpError e), w') \<Rightarrow> Some (Inr None, w')
      | Some (Inl e, w') \<Rightarrow> Some (Inl e, w')
      | Some (Inr all_revisions, w') \<Rightarrow>
          Some (Inr (select_revision all_revisions target_time), w'))"

section \<open>The Date Generator: \<^verbatim>\<open>get_weeknight_dates\<close>\<close>

text \<open>
  The \<^verbatim>\<open>datetime(...)\<close> constructor first converts every argument to a C \<^verbatim>\<open>int\<close> and
  raises \<^verbatim>\<open>OverflowError\<close> when one does not fit in 32 bits; it then checks every
  field and raises \<^verbatim>\<open>ValueError\<close> outside its range; years run from 1 to 9999.
\<close>

definition c_int :: "int \<Rightarrow> bool" where
  "c_int n \<longleftrightarrow> - 2147483648 \<le> n \<and> n \<le> 2147483647"

definition datetime_new ::
  "int \<Rightarrow> int \<Rightarrow> int \<Rightarrow> int \<Rightarrow> int \<Rightarrow> int \<Rightarrow> exn + datetime" where
  "datetime_new y m d H M S =
     (if \<not> (c_int y \<and> c_int m \<and> c_int d \<and> c_int H \<and> c_int M \<and> c_int S)
      then Inl OverflowError
      else if 1 \<le> y \<and> y \<le> 9999 \<and> 1 \<le> m \<and> m \<le> 12 \<and> 1 \<le> d \<and> d \<le> days_in_month y m
         \<and> 0 \<le> H \<and> H \<le> 23 \<and> 0 \<le> M \<and> M \<le> 59 \<and> 0 \<le> S \<and> S \<le> 59
      then Inr \<lparr>year = y, month = m, day = d, hour = H, minute = M, second = S,
                microsecond = 0\<rparr>
      else Inl ValueError)"

text \<open>Naive datetimes compare field by field, the year first.\<close>

definition dt_le :: "datetime \<Rightarrow> datetime \<Rightarrow> bool" where
  "dt_le a b =
     (year a < year b \<or> (year a = year b \<and>
     (month a < month b \<or> (month a = month b \<and>
     (day a < day b \<or> (day a = day b \<and>
     (hour a < hour b \<or> (hour a = hour b \<and>
     (minute a < minute b \<or> (minute a = minute b \<and>
     (second a < second b \<or> (second a = second b \<and>
      microsecond a \<le> microsecond b))))))))))))"

text \<open>
  \<^verbatim>\<open>current_date += timedelta(days=1)\<close>: the next calendar day at the same time of day.
  (The library raises \<^verbatim>\<open>OverflowError\<close> past year 9999; the loop below never gets
  there, since it only advances a date that is at most August 30.)
\<close>

definition add_one_day :: "datetime \<Rightarrow> datetime" where
  "add_one_day dt =
     (if day dt < days_in_month (year dt) (month dt) then dt\<lparr>day := day dt + 1\<rparr>
      else if month dt < 12 then dt\<lparr>month := month dt + 1, day := 1\<rparr>
      else dt\<lparr>year := year dt + 1, month := 1, day := 1\<rparr>)"

text \<open>
  \<^verbatim>\<open>eastern.localize(current_date)\<close> attaches the zone. The zone table of
  \<^verbatim>\<open>US/Eastern\<close> belongs to the \<^verbatim>\<open>pytz\<close> package; it is the parameter \<open>tz\<close>, which
  gives the UTC offset in seconds that the zone has at a local datetime.
\<close>

definition localize :: "(datetime \<Rightarrow> int) \<Rightarrow> datetime \<Rightarrow> aware" where
  "localize tz dt = \<lparr>local_fields = dt, utcoffset = tz dt\<rparr>"

text \<open>Lines 56-61: the loop over the days.\<close>

function weeknight_loop ::
  "(datetime \<Rightarrow> int) \<Rightarrow> datetime \<Rightarrow> datetime \<Rightarrow> aware list \<Rightarrow> aware list" where
  "weeknight_loop tz current_date end_date dates =
     (if dt_le current_date end_date then
        weeknight_loop tz (add_one_day current_date) end_date
          (if weekday current_date \<le> 4 then dates @ [localize tz current_date] else dates)
      else dates)"
  by pat_completeness auto
termination
  by (relation "measures
        [\<lambda>(tz, c, e, ds). nat (year e + 1 - year c),
         \<lambda>(tz, c, e, ds). nat (13 - month c),
         \<lambda>(tz, c, e, ds). nat (32 - day c)]")
     (auto simp: dt_le_def add_one_day_def days_in_month_def split: if_splits)

declare weeknight_loop.simps [simp del]

text \<open>
  Lines 44-63. \<open>now_year\<close> is the year of \<^verbatim>\<open>datetime.now()\<close>, used when no year is
  given.
\<close>

definition get_weeknight_dates ::
  "(datetime \<Rightarrow> int) \<Rightarrow> int \<Rightarrow> int option \<Rightarrow> exn + aware list" where
  "get_weeknight_dates tz now_year year_arg =
     (let y = (case year_arg of None \<Rightarrow> now_year | Some y' \<Rightarrow> y')
      in case datetime_new y 6 1 22 0 0 of
           Inl e \<Rightarrow> Inl e
         | Inr current_date \<Rightarrow>
            (case datetime_new y 8 30 23 59 59 of
               Inl e \<Rightarrow> Inl e
             | Inr end_date \<Rightarrow> Inr (weeknight_loop tz current_date end_date [])))"

section \<open>The Snapshot Reader: \<^verbatim>\<open>read_sheet_data\<close>\<close>

definition SOURCE_SPREADSHEET_ID :: string where
  "SOURCE_SPREADSHEET_ID = ''1zqHfqLxDgAbCf6E8-sogvZrefMTHxXe9XPiSW8_dVvg''"

definition SOURCE_SHEET_NAME :: string where
  "SOURCE_SHEET_NAME = ''Edit''"

definition DEST_SPREADSHEET_ID :: string where
  "DEST_SPREADSHEET_ID = ''1wwIedcXPAc33TVf7VmfOrWsBEkoJFbA0g2Y3d6RPSEw''"

definition DEST_SHEET_NAME :: string where
  "DEST_SHEET_NAME = ''Sheet1''"

text \<open>
  Lines 165-178. An \<^verbatim>\<open>HttpError\<close> is caught and gives the empty grid; a response
  without the key \<^verbatim>\<open>values\<close> gives the empty grid too.
\<close>

definition read_sheet_data ::
  "'w services \<Rightarrow> string \<Rightarrow> string \<Rightarrow> 'w \<Rightarrow> (exn + grid) \<times> 'w" where
  "read_sheet_data svc spreadsheet_id range_name w =
     (case values_get svc spreadsheet_id range_name w of
        (Inl (HttpError e), w') \<Rightarrow> (Inr [], w')
      | (Inl e, w') \<Rightarrow> (Inl e, w')
      | (Inr result, w') \<Rightarrow>
          (Inr (case resp_values result of None \<Rightarrow> [] | Some v \<Rightarrow> v), w'))"

section \<open>The accumulator and the Archive Writer: \<^verbatim>\<open>append_to_destination\<close>\<close>

text \<open>
  The accumulator \<^verbatim>\<open>all_historical_data\<close> is a Python dictionary keyed by aware
  datetimes: an association list in insertion order. Two aware datetimes are the same
  key when they denote the same instant; storing under a key that is present replaces
  the value and keeps the stored key.
\<close>

type_synonym dict = "(aware \<times> grid) list"

fun dict_set :: "dict \<Rightarrow> aware \<Rightarrow> grid \<Rightarrow> dict" where
  "dict_set [] k v = [(k, v)]"
| "dict_set ((k', v') # rest) k v =
     (if instant_of k' = instant_of k then (k', v) # rest
      else (k', v') # dict_set rest k v)"

fun dict_get :: "dict \<Rightarrow> aware \<Rightarrow> grid option" where
  "dict_get [] k = None"
| "dict_get ((k', v') # rest) k =
     (if instant_of k' = instant_of k then Some v' else dict_get rest k)"

text \<open>
  \<^verbatim>\<open>sorted(all_data.items())\<close>: the keys of a dictionary are pairwise different
  instants, so the order of the pairs is the order of their keys.
\<close>

definition sorted_items :: "dict \<Rightarrow> dict" where
  "sorted_items all_data = sort_key (\<lambda>(date, data). instant_of date) all_data"

text \<open>
  \<^verbatim>\<open>date.strftime('%A, %B %d, %Y at 10:00 PM ET')\<close> in the C locale: the names of the
  weekday and the month, the day on two digits, the year in decimal.
\<close>

fun digits :: "nat \<Rightarrow> string" where
  "digits n =
     (if n < 10 then [''0123456789'' ! n]
      else digits (n div 10) @ [''0123456789'' ! (n mod 10)])"

definition day_name :: "int \<Rightarrow> string" where
  "day_name wd =
     (if wd = 0 then ''Monday'' else if wd = 1 then ''Tuesday''
      else if wd = 2 then ''Wednesday'' else if wd = 3 then ''Thursday''
      else if wd = 4 then ''Friday'' else if wd = 5 then ''Saturday'' else ''Sunday'')"

definition month_name :: "int \<Rightarrow> string" where
  "month_name m =
     (if m = 1 then ''January'' else if m = 2 then ''February'' else if m = 3 then ''March''
      else if m = 4 then ''April'' else if m = 5 then ''May'' else if m = 6 then ''June''
      else if m = 7 then ''July'' else if m = 8 then ''August''
      else if m = 9 then ''September'' else if m = 10 then ''October''
      else if m = 11 then ''November'' else ''December'')"

definition strftime_header :: "aware \<Rightarrow> string" where
  "strftime_header date =
     (let dt = local_fields date
      in day_name (weekday dt) @ '', '' @ month_name (month dt) @ '' ''
         @ (if day dt < 10 then ''0'' else []) @ digits (nat (day dt)) @ '', ''
         @ digits (nat (year dt)) @ '' at 10:00 PM ET'')"

text \<open>The calendar sign that starts a date header, as its four UTF-8 bytes.\<close>

definition calendar_sign :: string where
  "calendar_sign = [CHR 0xF0, CHR 0x9F, CHR 0x93, CHR 0x85]"

definition blank_row :: row where
  "blank_row = [[]]"

text \<open>
  Lines 201-216: the loop over the sorted pairs, appending to \<^verbatim>\<open>all_values\<close>.
\<close>

fun format_loop :: "dict \<Rightarrow> grid \<Rightarrow> grid" where
  "format_loop [] all_values = all_values"
| "format_loop ((date, data) # rest) all_values =
     (let v1 = all_values @ [[calendar_sign @ '' '' @ strftime_header date]];
          v2 = v1 @ [blank_row];
          v3 = (if data \<noteq> [] then v2 @ data
                else v2 @ [[''[No data found for this date]'']]);
          v4 = v3 @ [blank_row];
          v5 = v4 @ [[replicate 50 CHR ''-'']];
          v6 = v5 @ [blank_row]
      in format_loop rest v6)"

text \<open>
  Lines 192-216: the rows to write. \<open>now_str\<close> is the text of
  \<^verbatim>\<open>datetime.now().strftime("%Y-%m-%d %H:%M:%S")\<close>.
\<close>

definition build_values :: "string \<Rightarrow> dict \<Rightarrow> grid" where
  "build_values now_str all_data =
     format_loop (sorted_items all_data)
       [[''Historical Data Extract - Generated '' @ now_str],
        [''10pm ET Snapshots - Weeknights (Mon-Fri) June 1 - August 30''],
        [replicate 50 CHR ''=''],
        blank_row]"

text \<open>
  Lines 218-243. Whatever the clear request raises is swallowed by the bare
  \<^verbatim>\<open>except\<close>; the update request follows in every case, and only its \<^verbatim>\<open>HttpError\<close>
  is caught.
\<close>

definition append_to_destination ::
  "'w services \<Rightarrow> string \<Rightarrow> dict \<Rightarrow> 'w \<Rightarrow> (exn + unit) \<times> 'w" where
  "append_to_destination svc now_str all_data w =
     (let all_values = build_values now_str all_data;
          w1 = snd (values_clear svc DEST_SPREADSHEET_ID (DEST_SHEET_NAME @ ''!A:L'') w)
      in case values_update svc DEST_SPREADSHEET_ID (DEST_SHEET_NAME @ ''!A1'')
                ''USER_ENTERED'' all_values w1 of
           (Inl (HttpError e), w2) \<Rightarrow> (Inr (), w2)
         | (Inl e, w2) \<Rightarrow> (Inl e, w2)
         | (Inr n, w2) \<Rightarrow> (Inr (), w2))"

section \<open>The Orchestrator: \<^verbatim>\<open>main\<close>\<close>

text \<open>
  Lines 273-290: what one iteration stores for its date, given the resolved revision
  identifier. The read request names the source spreadsheet and the range only.
\<close>

definition snapshot_for ::
  "'w services \<Rightarrow> string option \<Rightarrow> 'w \<Rightarrow> (exn + grid) \<times> 'w" where
  "snapshot_for svc revision_id w =
     (if truthy revision_id then
        (case read_sheet_data svc SOURCE_SPREADSHEET_ID (SOURCE_SHEET_NAME @ ''!A:L'') w of
           (Inl e, w') \<Rightarrow> (Inl e, w')
         | (Inr data, w') \<Rightarrow> (Inr (if data \<noteq> [] then data else []), w'))
      else (Inr [], w))"

text \<open>Lines 266-293: the loop over the target dates.\<close>

fun main_loop ::
  "'w services \<Rightarrow> aware list \<Rightarrow> dict \<Rightarrow> 'w \<Rightarrow> ((exn + dict) \<times> 'w) option" where
  "main_loop svc [] all_historical_data w = Some (Inr all_historical_data, w)"
| "main_loop svc (date # rest) all_historical_data w =
     (case find_best_revision svc SOURCE_SPREADSHEET_ID date w of
        None \<Rightarrow> None
      | Some (Inl e, w1) \<Rightarrow> Some (Inl e, w1)
      | Some (Inr revision_id, w1) \<Rightarrow>
          (case snapshot_for svc revision_id w1 of
             (Inl e, w2) \<Rightarrow> Some (Inl e, w2)
           | (Inr data, w2) \<Rightarrow>
               main_loop svc rest (dict_set all_historical_data date data) w2))"

text \<open>Lines 257-298, after the services are built; \<open>y\<close> is the configured year.\<close>

definition main ::
  "'w services \<Rightarrow> (datetime \<Rightarrow> int) \<Rightarrow> string \<Rightarrow> int \<Rightarrow> 'w
     \<Rightarrow> ((exn + unit) \<times> 'w) option" where
  "main svc tz now_str y w =
     (case get_weeknight_dates tz y (Some y) of
        Inl e \<Rightarrow> Some (Inl e, w)
      | Inr target_dates \<Rightarrow>
          (case main_loop svc target_dates [] w of
             None \<Rightarrow> None
           | Some (Inl e, w1) \<Rightarrow> Some (Inl e, w1)
           | Some (Inr all_historical_data, w1) \<Rightarrow>
               Some (append_to_destination svc now_str all_historical_data w1)))"

section \<open>Predicates used to state the properties\<close>

text \<open>
  \<open>first_min_at t pre b post\<close>: in the list \<open>pre @ b # post\<close>, the revision \<open>b\<close> is at
  or after \<open>t\<close>, every revision at or after \<open>t\<close> that comes before it is strictly
  later, and every one that comes after it is not earlier. So \<open>b\<close> is the first, in
  list order, of the earliest revisions at or after \<open>t\<close>.
\<close>

definition first_min_at ::
  "instant \<Rightarrow> revision list \<Rightarrow> revision \<Rightarrow> revision list \<Rightarrow> bool" where
  "first_min_at t pre b post \<longleftrightarrow>
     t \<le> rev_time b
     \<and> (\<forall>r\<in>set pre. t \<le> rev_time r \<longrightarrow> rev_time b < rev_time r)
     \<and> (\<forall>r\<in>set post. t \<le> rev_time r \<longrightarrow> rev_time b \<le> rev_time r)"

text \<open>
  The layout of the archive in the words of its description: four banner rows, then
  one section per date: a header row, a blank row, the snapshot rows (or one marker
  row when there are none), a blank row, a separator row and a blank row.
\<close>

definition banner :: "string \<Rightarrow> grid" where
  "banner now_str =
     [[''Historical Data Extract - Generated '' @ now_str],
      [''10pm ET Snapshots - Weeknights (Mon-Fri) June 1 - August 30''],
      [replicate 50 CHR ''=''],
      blank_row]"

definition date_section :: "aware \<times> grid \<Rightarrow> grid" where
  "date_section p =
     [[calendar_sign @ '' '' @ strftime_header (fst p)], blank_row]
     @ (if snd p = [] then [[''[No data found for this date]'']] else snd p)
     @ [blank_row, [replicate 50 CHR ''-''], blank_row]"

text \<open>
  The dates the Date Generator is described to produce: every calendar date from June 1
  through August 30 of the year, at 22:00:00, in calendar order; of these, the ones
  whose weekday is Monday to Friday, each with the offset of the zone attached.
\<close>

definition night :: "int \<Rightarrow> int \<Rightarrow> int \<Rightarrow> datetime" where
  "night y m d =
     \<lparr>year = y, month = m, day = d, hour = 22, minute = 0, second = 0, microsecond = 0\<rparr>"

definition summer_days :: "int \<Rightarrow> datetime list" where
  "summer_days y =
     map (night y 6) [1..30] @ map (night y 7) [1..31] @ map (night y 8) [1..30]"

definition expected_weeknights :: "(datetime \<Rightarrow> int) \<Rightarrow> int \<Rightarrow> aware list" where
  "expected_weeknights tz y =
     map (localize tz) (filter (\<lambda>dt. weekday dt \<le> 4) (summer_days y))"

text \<open>Auxiliary notions of the proofs about the loop over the days.\<close>

definition picks :: "(datetime \<Rightarrow> int) \<Rightarrow> datetime list \<Rightarrow> aware list" where
  "picks tz ds = map (localize tz) (filter (\<lambda>dt. weekday dt \<le> 4) ds)"

definition summer_end :: "int \<Rightarrow> datetime" where
  "summer_end y =
     \<lparr>year = y, month = 8, day = 30, hour = 23, minute = 59, second = 59, microsecond = 0\<rparr>"

definition day_apart :: "datetime \<Rightarrow> datetime \<Rightarrow> bool" where
  "day_apart a b \<longleftrightarrow> naive_us a + 86400000000 \<le> naive_us b"

section \<open>Fixtures used by the concrete evaluations\<close>

abbreviation DT :: "int \<Rightarrow> int \<Rightarrow> int \<Rightarrow> int \<Rightarrow> int \<Rightarrow> int \<Rightarrow> datetime" where
  "DT y m d H M S \<equiv>
     \<lparr>year = y, month = m, day = d, hour = H, minute = M, second = S, microsecond = 0\<rparr>"

text \<open>
  A remote side without state whose revision listing is one page \<open>revs\<close>, whose source
  sheet holds \<open>cells\<close>, and whose clear and update requests succeed.
\<close>

definition single_page :: "revision list \<Rightarrow> grid \<Rightarrow> unit services" where
  "single_page revs cells =
     \<lparr>revisions_list =
        (\<lambda>file_id page_token w. (Inr \<lparr>revisions = Some revs, nextPageToken = None\<rparr>, w)),
      values_get = (\<lambda>spreadsheet_id range_name w. (Inr \<lparr>resp_values = Some cells\<rparr>, w)),
      values_clear = (\<lambda>spreadsheet_id range_name w. (Inr (), w)),
      values_update = (\<lambda>spreadsheet_id range_name opt body w. (Inr (length body), w))\<rparr>"

text \<open>Revisions of 2024-06-03 (UTC) and the two targets of the worked example.\<close>

definition rev_at :: "string \<Rightarrow> int \<Rightarrow> int \<Rightarrow> revision" where
  "rev_at i H M = \<lparr>rev_id = i, modifiedTime = DT 2024 6 3 H M 0\<rparr>"

definition eastern_2200 :: aware where
  "eastern_2200 = \<lparr>local_fields = DT 2024 6 2 22 0 0, utcoffset = - 14400\<rparr>"

definition eastern_0000 :: aware where
  "eastern_0000 = \<lparr>local_fields = DT 2024 6 3 0 0 0, utcoffset = - 14400\<rparr>"


text \<open>
  A remote side that keeps the log of the requests it has received. Its listing is one
  page \<open>revs\<close>; its read request raises an \<^verbatim>\<open>HttpError\<close>, its clear request raises
  another exception, and its update request succeeds.
\<close>

definition failing_reads :: "revision list \<Rightarrow> string list services" where
  "failing_reads revs =
     \<lparr>revisions_list =
        (\<lambda>file_id page_token w.
           (Inr \<lparr>revisions = Some revs, nextPageToken = None\<rparr>, w @ [''list''])),
      values_get = (\<lambda>spreadsheet_id range_name w. (Inl (HttpError ''503''), w @ [''get''])),
      values_clear =
        (\<lambda>spreadsheet_id range_name w. (Inl (OtherError ''timeout''), w @ [''clear''])),
      values_update =
        (\<lambda>spreadsheet_id range_name opt body w. (Inr (length body), w @ [''update'']))\<rparr>"

text \<open>
  Two remote sides whose requests time out, that is, raise an exception that is not an
  \<^verbatim>\<open>HttpError\<close>: the first on the listing, the second (whose listing is one page
  \<open>revs\<close>) on the read.
\<close>

definition timeout_listing :: "string list services" where
  "timeout_listing =
     \<lparr>revisions_list =
        (\<lambda>file_id page_token w. (Inl (OtherError ''TimeoutError''), w @ [''list''])),
      values_get = (\<lambda>spreadsheet_id range_name w. (Inr \<lparr>resp_values = None\<rparr>, w @ [''get''])),
      values_clear = (\<lambda>spreadsheet_id range_name w. (Inr (), w @ [''clear''])),
      values_update =
        (\<lambda>spreadsheet_id range_name opt body w. (Inr (length body), w @ [''update'']))\<rparr>"

definition timeout_reads :: "revision list \<Rightarrow> string list services" where
  "timeout_reads revs =
     \<lparr>revisions_list =
        (\<lambda>file_id page_token w.
           (Inr \<lparr>revisions = Some revs, nextPageToken = None\<rparr>, w @ [''list''])),
      values_get =
        (\<lambda>spreadsheet_id range_name w. (Inl (OtherError ''TimeoutError''), w @ [''get''])),
      values_clear = (\<lambda>spreadsheet_id range_name w. (Inr (), w @ [''clear''])),
      values_update =
        (\<lambda>spreadsheet_id range_name opt body w. (Inr (length body), w @ [''update'']))\<rparr>"

section \<open>Properties of the Revision Resolver\<close>

lemma fetch_single_page:
  "fetch_pages (single_page revs cells) fid None [] w = Some (Inr revs, w)"
  by (subst fetch_pages.simps) (simp add: single_page_def)

lemma ymd2ord_2024_6: "ymd2ord 2024 6 d = 739037 + d"
  by (simp add: ymd2ord_def days_before_year_def days_before_month_def is_leap_def)

lemma naive_us_2024_6:
  "naive_us (DT 2024 6 d H M S)
     = (((739037 + d) * 24 + H) * 60 + M) * 60000000 + S * 1000000"
  by (simp add: naive_us_def toordinal_def ymd2ord_2024_6 algebra_simps)

lemma weekday_2024_06_03: "weekday (DT 2024 6 3 22 0 0) = 0"
  by (simp add: weekday_def toordinal_def ymd2ord_2024_6)

lemma rev_time_2024_6:
  "rev_time \<lparr>rev_id = i, modifiedTime = DT 2024 6 d H M S\<rparr>
     = (((739037 + d) * 24 + H) * 60 + M) * 60000000 + S * 1000000"
  by (simp add: rev_time_def instant_of_def fromisoformat_z_def naive_us_2024_6)

lemma astimezone_utc_2024_6:
  "astimezone_utc \<lparr>local_fields = DT 2024 6 d H M S, utcoffset = off\<rparr>
     = (((739037 + d) * 24 + H) * 60 + M) * 60000000 + S * 1000000 - off * 1000000"
  by (simp add: astimezone_utc_def instant_of_def naive_us_2024_6)

text \<open>
  Claim C5. The listing holds the revisions of 2024-06-03T01:55:00Z and
  2024-06-03T02:05:00Z, in this order. The target 2024-06-02 22:00:00 US Eastern
  (offset -4 h) is the instant 2024-06-03T02:00:00Z and the resolver returns the
  identifier of the 02:05:00Z revision; the target 2024-06-03 00:00:00 US Eastern is the
  instant 2024-06-03T04:00:00Z, after both revisions, and the resolver returns the
  identifier of the 02:05:00Z revision again, through the fallback scan.
\<close>

theorem resolver_example_2024_06_03:
  "astimezone_utc \<lparr>local_fields = DT 2024 6 2 22 0 0, utcoffset = - 14400\<rparr>
     = instant_of (fromisoformat_z (DT 2024 6 3 2 0 0))
   \<and> astimezone_utc \<lparr>local_fields = DT 2024 6 3 0 0 0, utcoffset = - 14400\<rparr>
     = instant_of (fromisoformat_z (DT 2024 6 3 4 0 0))
   \<and> find_best_revision
       (single_page [\<lparr>rev_id = ''rev-0155'', modifiedTime = DT 2024 6 3 1 55 0\<rparr>,
                     \<lparr>rev_id = ''rev-0205'', modifiedTime = DT 2024 6 3 2 5 0\<rparr>] [])
       ''doc'' \<lparr>local_fields = DT 2024 6 2 22 0 0, utcoffset = - 14400\<rparr> ()
     = Some (Inr (Some ''rev-0205''), ())
   \<and> scan_after (astimezone_utc \<lparr>local_fields = DT 2024 6 3 0 0 0, utcoffset = - 14400\<rparr>)
       [\<lparr>rev_id = ''rev-0155'', modifiedTime = DT 2024 6 3 1 55 0\<rparr>,
        \<lparr>rev_id = ''rev-0205'', modifiedTime = DT 2024 6 3 2 5 0\<rparr>] None = None
   \<and> find_best_revision
       (single_page [\<lparr>rev_id = ''rev-0155'', modifiedTime = DT 2024 6 3 1 55 0\<rparr>,
                     \<lparr>rev_id = ''rev-0205'', modifiedTime = DT 2024 6 3 2 5 0\<rparr>] [])
       ''doc'' \<lparr>local_fields = DT 2024 6 3 0 0 0, utcoffset = - 14400\<rparr> ()
     = Some (Inr (Some ''rev-0205''), ())"
  by (simp add: find_best_revision_def fetch_single_page select_revision_def
      rev_time_2024_6 astimezone_utc_2024_6 instant_of_def fromisoformat_z_def naive_us_2024_6)

lemma scan_after_Some_not_None: "scan_after t revs (Some b) \<noteq> None"
  by (induction revs arbitrary: b) auto

lemma scan_after_Some:
  "scan_after t revs (Some b) = Some b' \<Longrightarrow>
     (b' = b \<and> (\<forall>r\<in>set revs. t \<le> rev_time r \<longrightarrow> rev_time b \<le> rev_time r))
   \<or> (\<exists>pre post. revs = pre @ b' # post \<and> rev_time b' < rev_time b
        \<and> first_min_at t pre b' post)"
proof (induction revs arbitrary: b)
  case Nil
  then show ?case by simp
next
  case (Cons r revs)
  show ?case
  proof (cases "t \<le> rev_time r \<and> rev_time r < rev_time b")
    case True
    with Cons.prems have "scan_after t revs (Some r) = Some b'" by simp
    from Cons.IH [OF this] show ?thesis
    proof (elim disjE conjE exE)
      assume a: "b' = r" "\<forall>x\<in>set revs. t \<le> rev_time x \<longrightarrow> rev_time r \<le> rev_time x"
      have "r # revs = [] @ b' # revs" using a by simp
      moreover have "first_min_at t [] b' revs"
        using a True by (simp add: first_min_at_def)
      moreover have "rev_time b' < rev_time b" using a True by simp
      ultimately show ?thesis by blast
    next
      fix pre post
      assume p: "revs = pre @ b' # post" "rev_time b' < rev_time r" "first_min_at t pre b' post"
      have "r # revs = (r # pre) @ b' # post" using p by simp
      moreover have "first_min_at t (r # pre) b' post"
        using p by (simp add: first_min_at_def)
      moreover have "rev_time b' < rev_time b" using p True by linarith
      ultimately show ?thesis by blast
    qed
  next
    case False
    with Cons.prems have "scan_after t revs (Some b) = Some b'"
      by (auto split: if_splits)
    from Cons.IH [OF this] show ?thesis
    proof (elim disjE conjE exE)
      assume a: "b' = b" "\<forall>x\<in>set revs. t \<le> rev_time x \<longrightarrow> rev_time b \<le> rev_time x"
      have "\<forall>x\<in>set (r # revs). t \<le> rev_time x \<longrightarrow> rev_time b \<le> rev_time x"
        using a False by auto
      with a show ?thesis by blast
    next
      fix pre post
      assume p: "revs = pre @ b' # post" "rev_time b' < rev_time b" "first_min_at t pre b' post"
      have "r # revs = (r # pre) @ b' # post" using p by simp
      moreover have "first_min_at t (r # pre) b' post"
        using p False by (auto simp add: first_min_at_def)
      ultimately show ?thesis using p by blast
    qed
  qed
qed

lemma scan_after_None_iff:
  "scan_after t revs None = None \<longleftrightarrow> (\<forall>r\<in>set revs. rev_time r < t)"
  by (induction revs) (auto simp: scan_after_Some_not_None)

lemma scan_after_None_Some:
  "scan_after t revs None = Some b' \<Longrightarrow>
     \<exists>pre post. revs = pre @ b' # post \<and> first_min_at t pre b' post"
proof (induction revs)
  case Nil
  then show ?case by simp
next
  case (Cons r revs)
  show ?case
  proof (cases "t \<le> rev_time r")
    case True
    with Cons.prems have s: "scan_after t revs (Some r) = Some b'" by simp
    from scan_after_Some [OF s] show ?thesis
    proof (elim disjE conjE exE)
      assume a: "b' = r" "\<forall>x\<in>set revs. t \<le> rev_time x \<longrightarrow> rev_time r \<le> rev_time x"
      have "r # revs = [] @ b' # revs" using a by simp
      moreover have "first_min_at t [] b' revs"
        using a True by (simp add: first_min_at_def)
      ultimately show ?thesis by blast
    next
      fix pre post
      assume p: "revs = pre @ b' # post" "rev_time b' < rev_time r" "first_min_at t pre b' post"
      have "r # revs = (r # pre) @ b' # post" using p by simp
      moreover have "first_min_at t (r # pre) b' post"
        using p by (simp add: first_min_at_def)
      ultimately show ?thesis by blast
    qed
  next
    case False
    with Cons.prems have "scan_after t revs None = Some b'" by simp
    from Cons.IH [OF this] obtain pre post where
      p: "revs = pre @ b' # post" "first_min_at t pre b' post" by blast
    have "r # revs = (r # pre) @ b' # post" using p by simp
    moreover have "first_min_at t (r # pre) b' post"
      using p False by (auto simp add: first_min_at_def)
    ultimately show ?thesis by blast
  qed
qed


lemma scan_before_first:
  "xs \<noteq> [] \<Longrightarrow> rev_time (hd xs) \<le> t \<Longrightarrow> scan_before t xs = Some (hd xs)"
  by (cases xs) simp_all

lemma select_revision_fallback:
  assumes "revs \<noteq> []" and "\<forall>r\<in>set revs. rev_time r < astimezone_utc target"
  shows "select_revision revs target = Some (rev_id (last revs))"
proof -
  have a: "scan_after (astimezone_utc target) revs None = None"
    using assms(2) by (simp add: scan_after_None_iff)
  have "rev_time (last revs) < astimezone_utc target"
    using assms by simp
  then have "scan_before (astimezone_utc target) (rev revs) = Some (hd (rev revs))"
    using assms(1) by (intro scan_before_first) (simp_all add: hd_rev)
  then show ?thesis
    using assms(1) a by (simp add: select_revision_def hd_rev)
qed

lemma select_revision_after:
  assumes "\<exists>r\<in>set revs. astimezone_utc target \<le> rev_time r"
  shows "\<exists>pre b post. revs = pre @ b # post
           \<and> first_min_at (astimezone_utc target) pre b post
           \<and> select_revision revs target = Some (rev_id b)"
proof -
  have ne: "revs \<noteq> []" using assms by auto
  have "scan_after (astimezone_utc target) revs None \<noteq> None"
    using assms by (simp add: scan_after_None_iff) (meson not_less)
  then obtain b where b: "scan_after (astimezone_utc target) revs None = Some b" by blast
  from scan_after_None_Some [OF b] obtain pre post where
    p: "revs = pre @ b # post" "first_min_at (astimezone_utc target) pre b post" by blast
  have "select_revision revs target = Some (rev_id b)"
    using ne b by (simp add: select_revision_def)
  with p show ?thesis by blast
qed

lemma select_revision_nonempty:
  assumes "revs \<noteq> []"
  shows "\<exists>r\<in>set revs. select_revision revs target = Some (rev_id r)"
proof (cases "\<exists>r\<in>set revs. astimezone_utc target \<le> rev_time r")
  case True
  from select_revision_after [OF True] obtain pre b post where
    "revs = pre @ b # post" "select_revision revs target = Some (rev_id b)" by blast
  then show ?thesis by auto
next
  case False
  then have "\<forall>r\<in>set revs. rev_time r < astimezone_utc target" by auto
  from select_revision_fallback [OF assms this] assms show ?thesis
    by (metis last_in_set)
qed

text \<open>
  Claim C1. When the fetched listing holds a revision at or after the target instant,
  the resolver returns the identifier of the earliest such revision; among several
  revisions with that earliest time it returns the first in list order.
\<close>

theorem resolver_earliest_at_or_after:
  assumes "fetch_pages svc file_id None [] w = Some (Inr revs, w')"
    and "\<exists>r\<in>set revs. astimezone_utc target \<le> rev_time r"
  shows "\<exists>pre b post. revs = pre @ b # post
           \<and> first_min_at (astimezone_utc target) pre b post
           \<and> find_best_revision svc file_id target w = Some (Inr (Some (rev_id b)), w')"
  using select_revision_after [OF assms(2)] assms(1)
  by (simp add: find_best_revision_def)

text \<open>
  Claim C8, as amended. Once the listing has returned, the resolver's result is
  \<^verbatim>\<open>None\<close> exactly when the fetched list is empty or the listing raised an
  \<^verbatim>\<open>HttpError\<close>; any other exception of the listing is not caught and leaves the
  resolver; for a non-empty list the result is the identifier of one of its revisions.
\<close>

theorem resolver_none_iff:
  assumes "fetch_pages svc file_id None [] w = Some (out, w')"
  shows "(find_best_revision svc file_id target w = Some (Inr None, w')
            \<longleftrightarrow> out = Inr [] \<or> (\<exists>e. out = Inl (HttpError e)))
       \<and> (\<forall>x. out = Inl x \<and> (\<forall>e. x \<noteq> HttpError e) \<longrightarrow>
            find_best_revision svc file_id target w = Some (Inl x, w'))
       \<and> (\<forall>revs. out = Inr revs \<and> revs \<noteq> [] \<longrightarrow>
            (\<exists>r\<in>set revs.
               find_best_revision svc file_id target w = Some (Inr (Some (rev_id r)), w')))"
proof (cases out)
  case (Inl e)
  then show ?thesis using assms
    by (cases e) (simp_all add: find_best_revision_def)
next
  case (Inr revs)
  show ?thesis
  proof (cases "revs = []")
    case True
    then show ?thesis using assms Inr
      by (simp add: find_best_revision_def select_revision_def)
  next
    case False
    from select_revision_nonempty [OF False, of target] obtain r where
      "r \<in> set revs" "select_revision revs target = Some (rev_id r)" by blast
    then show ?thesis using assms Inr False
      by (auto simp add: find_best_revision_def)
  qed
qed

lemmas fixture_times = rev_at_def eastern_2200_def eastern_0000_def rev_time_2024_6
  astimezone_utc_2024_6

theorem resolver_earliest_at_or_after_witness:
  "find_best_revision
     (single_page [rev_at ''rev-a'' 2 5, rev_at ''rev-b'' 1 55, rev_at ''rev-c'' 2 5] [])
     ''doc'' eastern_2200 () = Some (Inr (Some ''rev-a''), ())
   \<and> (\<exists>pre b post.
        [rev_at ''rev-a'' 2 5, rev_at ''rev-b'' 1 55, rev_at ''rev-c'' 2 5] = pre @ b # post
        \<and> first_min_at (astimezone_utc eastern_2200) pre b post
        \<and> find_best_revision
            (single_page [rev_at ''rev-a'' 2 5, rev_at ''rev-b'' 1 55, rev_at ''rev-c'' 2 5] [])
            ''doc'' eastern_2200 () = Some (Inr (Some (rev_id b)), ()))"
proof -
  have h: "\<exists>r\<in>set [rev_at ''rev-a'' 2 5, rev_at ''rev-b'' 1 55, rev_at ''rev-c'' 2 5].
             astimezone_utc eastern_2200 \<le> rev_time r"
    by (simp add: fixture_times)
  have e: "find_best_revision
     (single_page [rev_at ''rev-a'' 2 5, rev_at ''rev-b'' 1 55, rev_at ''rev-c'' 2 5] [])
     ''doc'' eastern_2200 () = Some (Inr (Some ''rev-a''), ())"
    by (simp add: find_best_revision_def fetch_single_page select_revision_def fixture_times)
  from resolver_earliest_at_or_after [OF fetch_single_page [of _ "[]" "''doc''" "()"] h] e
  show ?thesis by blast
qed

lemma fetch_timeout_listing:
  "fetch_pages timeout_listing fid None [] w
     = Some (Inl (OtherError ''TimeoutError''), w @ [''list''])"
  by (subst fetch_pages.simps) (simp add: timeout_listing_def)

theorem resolver_none_iff_witness:
  "find_best_revision (single_page [] []) ''doc'' eastern_2200 () = Some (Inr None, ())
   \<and> (\<exists>r\<in>set [rev_at ''rev-a'' 2 5, rev_at ''rev-b'' 1 55].
        find_best_revision (single_page [rev_at ''rev-a'' 2 5, rev_at ''rev-b'' 1 55] [])
          ''doc'' eastern_2200 () = Some (Inr (Some (rev_id r)), ()))
   \<and> find_best_revision timeout_listing ''doc'' eastern_2200 []
        = Some (Inl (OtherError ''TimeoutError''), [''list''])"
  using resolver_none_iff [where target = eastern_2200,
      OF fetch_single_page [of "[]" "[]" "''doc''" "()"]]
    resolver_none_iff [where target = eastern_2200,
      OF fetch_single_page [of "[rev_at ''rev-a'' 2 5, rev_at ''rev-b'' 1 55]" "[]" "''doc''" "()"]]
    resolver_none_iff [where target = eastern_2200,
      OF fetch_timeout_listing [of "''doc''" "[]"]]
  by simp

text \<open>
  Claim C8 as stated fails for a transport error that is not an \<^verbatim>\<open>HttpError\<close>: when
  the listing times out, the resolver does not return \<^verbatim>\<open>None\<close>; the exception leaves
  it (and, in the loop over the dates, ends the run).
\<close>

theorem listing_timeout_propagates:
  "find_best_revision timeout_listing SOURCE_SPREADSHEET_ID eastern_2200 []
     = Some (Inl (OtherError ''TimeoutError''), [''list''])
   \<and> find_best_revision timeout_listing SOURCE_SPREADSHEET_ID eastern_2200 []
     \<noteq> Some (Inr None, [''list''])
   \<and> main_loop timeout_listing [eastern_2200, eastern_0000] [] []
     = Some (Inl (OtherError ''TimeoutError''), [''list''])"
  by (simp add: find_best_revision_def fetch_timeout_listing)

text \<open>
  Claim C2. Every revision of the listing is strictly before the target, and the
  listing is not in chronological order: the 02:05:00Z revision comes first, the
  01:55:00Z revision last. The fallback scan stops at the last revision of the list, so
  the resolver returns the identifier of the 01:55:00Z revision, which is not the latest.
\<close>

theorem fallback_unordered_listing:
  "rev_time (rev_at ''rev-0155'' 1 55) < rev_time (rev_at ''rev-0205'' 2 5)
   \<and> rev_time (rev_at ''rev-0205'' 2 5) < astimezone_utc eastern_0000
   \<and> find_best_revision
       (single_page [rev_at ''rev-0205'' 2 5, rev_at ''rev-0155'' 1 55] [])
       ''doc'' eastern_0000 () = Some (Inr (Some ''rev-0155''), ())"
  by (simp add: find_best_revision_def fetch_single_page select_revision_def fixture_times)

section \<open>Properties of the Archive Writer\<close>

lemma format_loop_sections:
  "format_loop items all_values = all_values @ concat (map date_section items)"
  by (induction items arbitrary: all_values)
     (auto simp add: date_section_def Let_def)

lemma length_date_section: "length (date_section p) = 5 + max 1 (length (snd p))"
  by (cases "snd p") (simp_all add: date_section_def)

lemma sum_list_sorted_items:
  fixes f :: "aware \<times> grid \<Rightarrow> nat"
  shows "sum_list (map f (sorted_items all_data)) = sum_list (map f all_data)"
proof -
  have "mset (map f (sorted_items all_data)) = mset (map f all_data)"
    by (simp add: sorted_items_def)
  then have "sum_mset (mset (map f (sorted_items all_data))) = sum_mset (mset (map f all_data))"
    by simp
  then show ?thesis by (simp only: sum_mset_sum_list)
qed

lemma key_is_instant: "(\<lambda>(date, data). instant_of date) = instant_of \<circ> fst"
  by (auto simp add: fun_eq_iff)

lemma sorted_items_sorted: "sorted (map (instant_of \<circ> fst) (sorted_items all_data))"
  by (simp add: sorted_items_def key_is_instant)

lemma sorted_items_permutation:
  assumes "distinct (map (instant_of \<circ> fst) d1)" and "mset d1 = mset d2"
  shows "sorted_items d1 = sorted_items d2"
proof -
  have i: "inj_on (instant_of \<circ> fst) (set d1)"
    using assms(1) by (simp add: distinct_map)
  have m: "mset d1 = mset (sort_key (instant_of \<circ> fst) d2)"
    using assms(2) by simp
  have s: "sorted (map (instant_of \<circ> fst) (sort_key (instant_of \<circ> fst) d2))"
    by simp
  have "sort_key (instant_of \<circ> fst) d1 = sort_key (instant_of \<circ> fst) d2"
    by (rule sort_key_inj_key_eq [OF m i s])
  then show ?thesis by (simp add: sorted_items_def key_is_instant)
qed

text \<open>
  Claim C10. For every accumulator the rows are the four banner rows followed by the
  sections of the dates in ascending order of their instants, each section being
  \<open>date_section\<close> of the pair (header, blank, the snapshot rows or one marker row, blank,
  separator, blank); the number of rows is 4 plus, for each date, 5 plus the larger of
  1 and the number of its snapshot rows.
\<close>

theorem archive_layout:
  "build_values now_str all_data
     = banner now_str @ concat (map date_section (sorted_items all_data))
   \<and> length (banner now_str) = 4
   \<and> mset (sorted_items all_data) = mset all_data
   \<and> sorted (map (instant_of \<circ> fst) (sorted_items all_data))
   \<and> length (build_values now_str all_data)
       = 4 + sum_list (map (\<lambda>p. 5 + max 1 (length (snd p))) all_data)"
proof -
  have a: "build_values now_str all_data
     = banner now_str @ concat (map date_section (sorted_items all_data))"
    by (simp add: build_values_def banner_def format_loop_sections)
  have b: "length (banner now_str) = 4" by (simp add: banner_def)
  have c: "mset (sorted_items all_data) = mset all_data" by (simp add: sorted_items_def)
  have "length (concat (map date_section (sorted_items all_data)))
          = sum_list (map (\<lambda>p. 5 + max 1 (length (snd p))) (sorted_items all_data))"
    by (simp add: length_concat comp_def length_date_section)
  then have d: "length (build_values now_str all_data)
       = 4 + sum_list (map (\<lambda>p. 5 + max 1 (length (snd p))) all_data)"
    using a b by (simp add: sum_list_sorted_items)
  from a b c d sorted_items_sorted show ?thesis by blast
qed

lemma build_values_sections:
  "build_values now_str all_data
     = banner now_str @ concat (map date_section (sorted_items all_data))"
  by (simp add: build_values_def banner_def format_loop_sections)

lemma sorted_items_strict:
  assumes "distinct (map (instant_of \<circ> fst) all_data)"
  shows "sorted_wrt (\<lambda>p q. instant_of (fst p) < instant_of (fst q)) (sorted_items all_data)"
proof -
  have m: "mset (map (instant_of \<circ> fst) (sorted_items all_data))
          = mset (map (instant_of \<circ> fst) all_data)"
    by (simp add: sorted_items_def)
  have d: "distinct (map (instant_of \<circ> fst) (sorted_items all_data))"
    using assms by (rule mset_eq_imp_distinct_iff [OF m, THEN iffD2])
  have s: "sorted (map (instant_of \<circ> fst) (sorted_items all_data))"
    by (rule sorted_items_sorted)
  from s d have "sorted_wrt (<) (map (instant_of \<circ> fst) (sorted_items all_data))"
    unfolding strict_sorted_iff by (rule conjI)
  then show ?thesis by (simp add: sorted_wrt_map)
qed

text \<open>
  Claim C7. Two accumulators that hold the same date-to-rows pairs, inserted in any
  order, give the same rows, and these rows list the sections of the dates in strictly
  ascending order of their instants: the rows are the banner followed by the sections
  of the sorted pairs, the sorted pairs are a permutation of the accumulator, and their
  instants increase. (The keys of a dictionary are pairwise different instants.)
\<close>

theorem archive_order_independent:
  assumes "distinct (map (instant_of \<circ> fst) d1)" and "mset d1 = mset d2"
  shows "build_values now_str d1 = build_values now_str d2
       \<and> build_values now_str d2
           = banner now_str @ concat (map date_section (sorted_items d2))
       \<and> mset (sorted_items d2) = mset d1
       \<and> sorted_wrt (\<lambda>p q. instant_of (fst p) < instant_of (fst q)) (sorted_items d2)"
proof -
  have e: "sorted_items d1 = sorted_items d2"
    using assms by (rule sorted_items_permutation)
  have a: "build_values now_str d1 = build_values now_str d2"
    using e by (simp add: build_values_def)
  have b: "build_values now_str d2
           = banner now_str @ concat (map date_section (sorted_items d2))"
    by (rule build_values_sections)
  have c: "mset (sorted_items d2) = mset d1"
    using assms(2) by (simp add: sorted_items_def)
  have d: "sorted_wrt (\<lambda>p q. instant_of (fst p) < instant_of (fst q)) (sorted_items d2)"
    using sorted_items_strict [OF assms(1)] e by simp
  from a b c d show ?thesis by - (intro conjI, assumption+)
qed

lemma instant_of_2024_6:
  "instant_of \<lparr>local_fields = DT 2024 6 d H M S, utcoffset = off\<rparr>
     = (((739037 + d) * 24 + H) * 60 + M) * 60000000 + S * 1000000 - off * 1000000"
  by (simp add: instant_of_def naive_us_2024_6)

text \<open>
  The witness: the later date is inserted first; both orders give the rows in which the
  section of the earlier date comes first.
\<close>

theorem archive_order_independent_witness:
  "build_values ''2024-09-01 12:00:00'' [(eastern_2200, [[''a'', ''b'']]), (eastern_0000, [])]
     = build_values ''2024-09-01 12:00:00'' [(eastern_0000, []), (eastern_2200, [[''a'', ''b'']])]
   \<and> build_values ''2024-09-01 12:00:00'' [(eastern_0000, []), (eastern_2200, [[''a'', ''b'']])]
     = banner ''2024-09-01 12:00:00''
       @ date_section (eastern_2200, [[''a'', ''b'']]) @ date_section (eastern_0000, [])
   \<and> instant_of eastern_2200 < instant_of eastern_0000"
proof -
  have h1: "distinct (map (instant_of \<circ> fst)
              [(eastern_2200, [[''a'', ''b'']]), (eastern_0000, [])])"
    by (simp add: eastern_2200_def eastern_0000_def instant_of_2024_6)
  have h2: "mset [(eastern_2200, [[''a'', ''b'']]), (eastern_0000, [])]
              = mset [(eastern_0000, []), (eastern_2200, [[''a'', ''b'']])]"
    by simp
  have lt: "instant_of eastern_2200 < instant_of eastern_0000"
    by (simp add: eastern_2200_def eastern_0000_def instant_of_2024_6)
  have s: "sorted_items [(eastern_0000, []), (eastern_2200, [[''a'', ''b'']])]
             = [(eastern_2200, [[''a'', ''b'']]), (eastern_0000, [])]"
    using lt by (simp add: sorted_items_def)
  note t = archive_order_independent [OF h1 h2, of "''2024-09-01 12:00:00''"]
  have b: "build_values ''2024-09-01 12:00:00''
             [(eastern_0000, []), (eastern_2200, [[''a'', ''b'']])]
     = banner ''2024-09-01 12:00:00''
       @ date_section (eastern_2200, [[''a'', ''b'']]) @ date_section (eastern_0000, [])"
    using t [THEN conjunct2, THEN conjunct1] by (simp add: s)
  from t [THEN conjunct1] b lt show ?thesis by - (intro conjI, assumption+)
qed

section \<open>Properties of the Snapshot Reader and of the error handling\<close>

lemma fetch_timeout_reads:
  "fetch_pages (timeout_reads revs) fid None [] w = Some (Inr revs, w @ [''list''])"
  by (subst fetch_pages.simps) (simp add: timeout_reads_def)

lemma fetch_failing_reads:
  "fetch_pages (failing_reads revs) fid None [] w = Some (Inr revs, w @ [''list''])"
  by (subst fetch_pages.simps) (simp add: failing_reads_def)

lemma find_best_failing_reads_one:
  "find_best_revision (failing_reads [rev_at ''rev-1'' 2 5]) fid eastern_2200 w
     = Some (Inr (Some ''rev-1''), w @ [''list''])"
  by (simp add: find_best_revision_def fetch_failing_reads select_revision_def fixture_times)

lemma find_best_timeout_reads_one:
  "find_best_revision (timeout_reads [rev_at ''rev-1'' 2 5]) fid eastern_2200 w
     = Some (Inr (Some ''rev-1''), w @ [''list''])"
  by (simp add: find_best_revision_def fetch_timeout_reads select_revision_def fixture_times)

text \<open>
  Claim C9, as amended. An \<^verbatim>\<open>HttpError\<close> of the read request gives the empty grid:
  the iteration stores the empty grid for its date and the loop goes on with the next
  date. Any other exception of the read request is not caught: it leaves
  \<^verbatim>\<open>read_sheet_data\<close> and ends the loop at that date. Whatever the clear request
  returns or raises, \<^verbatim>\<open>append_to_destination\<close> goes on: the update request is sent,
  with all the rows, on the state the clear request left, and its outcome alone decides
  the result; when the update succeeds, the whole run ends normally.
\<close>

theorem read_and_clear_failures_swallowed:
  "(values_get svc spreadsheet_id range_name w = (Inl (HttpError e), w') \<longrightarrow>
      read_sheet_data svc spreadsheet_id range_name w = (Inr [], w'))
   \<and> (find_best_revision svc SOURCE_SPREADSHEET_ID d w0 = Some (Inr revision_id, w)
        \<and> truthy revision_id
        \<and> values_get svc SOURCE_SPREADSHEET_ID (SOURCE_SHEET_NAME @ ''!A:L'') w
            = (Inl (HttpError e), w') \<longrightarrow>
      main_loop svc (d # rest) acc w0 = main_loop svc rest (dict_set acc d []) w')
   \<and> ((\<forall>e'. x \<noteq> HttpError e')
        \<and> values_get svc spreadsheet_id range_name w = (Inl x, w') \<longrightarrow>
      read_sheet_data svc spreadsheet_id range_name w = (Inl x, w'))
   \<and> ((\<forall>e'. x \<noteq> HttpError e')
        \<and> find_best_revision svc SOURCE_SPREADSHEET_ID d w0 = Some (Inr revision_id, w)
        \<and> truthy revision_id
        \<and> values_get svc SOURCE_SPREADSHEET_ID (SOURCE_SHEET_NAME @ ''!A:L'') w
            = (Inl x, w') \<longrightarrow>
      main_loop svc (d # rest) acc w0 = Some (Inl x, w'))
   \<and> (values_clear svc DEST_SPREADSHEET_ID (DEST_SHEET_NAME @ ''!A:L'') wc = (r, w1) \<longrightarrow>
      append_to_destination svc now_str all_data wc
        = (case values_update svc DEST_SPREADSHEET_ID (DEST_SHEET_NAME @ ''!A1'')
                  ''USER_ENTERED'' (build_values now_str all_data) w1 of
             (Inl (HttpError e'), w2) \<Rightarrow> (Inr (), w2)
           | (Inl e', w2) \<Rightarrow> (Inl e', w2)
           | (Inr n, w2) \<Rightarrow> (Inr (), w2)))
   \<and> (get_weeknight_dates tz y (Some y) = Inr target_dates
        \<and> main_loop svc target_dates [] ws = Some (Inr all_data, wc)
        \<and> values_clear svc DEST_SPREADSHEET_ID (DEST_SHEET_NAME @ ''!A:L'') wc = (r, w1)
        \<and> values_update svc DEST_SPREADSHEET_ID (DEST_SHEET_NAME @ ''!A1'')
              ''USER_ENTERED'' (build_values now_str all_data) w1 = (Inr n, w3) \<longrightarrow>
      main svc tz now_str y ws = Some (Inr (), w3))"
proof (intro conjI impI)
  assume "values_get svc spreadsheet_id range_name w = (Inl (HttpError e), w')"
  then show "read_sheet_data svc spreadsheet_id range_name w = (Inr [], w')"
    by (simp add: read_sheet_data_def)
next
  assume "find_best_revision svc SOURCE_SPREADSHEET_ID d w0 = Some (Inr revision_id, w)
        \<and> truthy revision_id
        \<and> values_get svc SOURCE_SPREADSHEET_ID (SOURCE_SHEET_NAME @ ''!A:L'') w
            = (Inl (HttpError e), w')"
  then show "main_loop svc (d # rest) acc w0 = main_loop svc rest (dict_set acc d []) w'"
    by (simp add: snapshot_for_def read_sheet_data_def)
next
  assume "(\<forall>e'. x \<noteq> HttpError e')
        \<and> values_get svc spreadsheet_id range_name w = (Inl x, w')"
  then show "read_sheet_data svc spreadsheet_id range_name w = (Inl x, w')"
    by (cases x) (simp_all add: read_sheet_data_def)
next
  assume "(\<forall>e'. x \<noteq> HttpError e')
        \<and> find_best_revision svc SOURCE_SPREADSHEET_ID d w0 = Some (Inr revision_id, w)
        \<and> truthy revision_id
        \<and> values_get svc SOURCE_SPREADSHEET_ID (SOURCE_SHEET_NAME @ ''!A:L'') w
            = (Inl x, w')"
  then show "main_loop svc (d # rest) acc w0 = Some (Inl x, w')"
    by (cases x) (simp_all add: snapshot_for_def read_sheet_data_def)
next
  assume "values_clear svc DEST_SPREADSHEET_ID (DEST_SHEET_NAME @ ''!A:L'') wc = (r, w1)"
  then show "append_to_destination svc now_str all_data wc
        = (case values_update svc DEST_SPREADSHEET_ID (DEST_SHEET_NAME @ ''!A1'')
                  ''USER_ENTERED'' (build_values now_str all_data) w1 of
             (Inl (HttpError e'), w2) \<Rightarrow> (Inr (), w2)
           | (Inl e', w2) \<Rightarrow> (Inl e', w2)
           | (Inr n, w2) \<Rightarrow> (Inr (), w2))"
    by (simp add: append_to_destination_def)
next
  assume "get_weeknight_dates tz y (Some y) = Inr target_dates
        \<and> main_loop svc target_dates [] ws = Some (Inr all_data, wc)
        \<and> values_clear svc DEST_SPREADSHEET_ID (DEST_SHEET_NAME @ ''!A:L'') wc = (r, w1)
        \<and> values_update svc DEST_SPREADSHEET_ID (DEST_SHEET_NAME @ ''!A1'')
              ''USER_ENTERED'' (build_values now_str all_data) w1 = (Inr n, w3)"
  then show "main svc tz now_str y ws = Some (Inr (), w3)"
    by (simp add: main_def append_to_destination_def)
qed

theorem read_and_clear_failures_swallowed_witness:
  "read_sheet_data (failing_reads [rev_at ''rev-1'' 2 5]) SOURCE_SPREADSHEET_ID
       (SOURCE_SHEET_NAME @ ''!A:L'') [''list''] = (Inr [], [''list'', ''get''])
   \<and> main_loop (failing_reads [rev_at ''rev-1'' 2 5]) [eastern_2200] [] []
       = Some (Inr [(eastern_2200, [])], [''list'', ''get''])
   \<and> append_to_destination (failing_reads [rev_at ''rev-1'' 2 5]) ''2024-09-01 12:00:00''
       [(eastern_2200, [])] [''list'', ''get'']
       = (Inr (), [''list'', ''get'', ''clear'', ''update''])"
proof -
  let ?svc = "failing_reads [rev_at ''rev-1'' 2 5]"
  have g: "values_get ?svc SOURCE_SPREADSHEET_ID (SOURCE_SHEET_NAME @ ''!A:L'') [''list'']
             = (Inl (HttpError ''503''), [''list'', ''get''])"
    by (simp add: failing_reads_def)
  have f: "find_best_revision ?svc SOURCE_SPREADSHEET_ID eastern_2200 []
             = Some (Inr (Some ''rev-1''), [''list''])"
    by (simp add: find_best_failing_reads_one)
  have c: "values_clear ?svc DEST_SPREADSHEET_ID (DEST_SHEET_NAME @ ''!A:L'') [''list'', ''get'']
             = (Inl (OtherError ''timeout''), [''list'', ''get'', ''clear''])"
    by (simp add: failing_reads_def)
  note t = read_and_clear_failures_swallowed
    [where svc = ?svc and spreadsheet_id = SOURCE_SPREADSHEET_ID
       and range_name = "SOURCE_SHEET_NAME @ ''!A:L''" and w = "[''list'']"
       and e = "''503''" and w' = "[''list'', ''get'']" and d = eastern_2200 and ?w0.0 = "[]"
       and revision_id = "Some ''rev-1''" and rest = "[]" and acc = "[]"
       and wc = "[''list'', ''get'']" and r = "Inl (OtherError ''timeout'')"
       and ?w1.0 = "[''list'', ''get'', ''clear'']" and now_str = "''2024-09-01 12:00:00''"
       and all_data = "[(eastern_2200, [])]"]
  have a1: "read_sheet_data ?svc SOURCE_SPREADSHEET_ID (SOURCE_SHEET_NAME @ ''!A:L'') [''list'']
              = (Inr [], [''list'', ''get''])"
    using t [THEN conjunct1] g by simp
  have a2: "main_loop ?svc [eastern_2200] [] [] = Some (Inr [(eastern_2200, [])], [''list'', ''get''])"
    using t [THEN conjunct2, THEN conjunct1] f g by simp
  have a3: "append_to_destination ?svc ''2024-09-01 12:00:00'' [(eastern_2200, [])]
              [''list'', ''get''] = (Inr (), [''list'', ''get'', ''clear'', ''update''])"
    using t [THEN conjunct2, THEN conjunct2, THEN conjunct2, THEN conjunct2, THEN conjunct1] c
    by (simp add: failing_reads_def)
  from a1 a2 a3 show ?thesis by - (intro conjI, assumption+)
qed

text \<open>
  Claim C9 as stated fails for a transport error that is not an \<^verbatim>\<open>HttpError\<close>: when
  the read request times out, \<^verbatim>\<open>read_sheet_data\<close> does not return the empty grid, the
  exception leaves it, and the loop ends at the first date without reaching the second.
\<close>

theorem read_timeout_aborts:
  "read_sheet_data (timeout_reads [rev_at ''rev-1'' 2 5]) SOURCE_SPREADSHEET_ID
       (SOURCE_SHEET_NAME @ ''!A:L'') [''list'']
     = (Inl (OtherError ''TimeoutError''), [''list'', ''get''])
   \<and> main_loop (timeout_reads [rev_at ''rev-1'' 2 5]) [eastern_2200, eastern_0000] [] []
     = Some (Inl (OtherError ''TimeoutError''), [''list'', ''get''])"
proof -
  have a: "read_sheet_data (timeout_reads [rev_at ''rev-1'' 2 5]) SOURCE_SPREADSHEET_ID
       (SOURCE_SHEET_NAME @ ''!A:L'') [''list'']
     = (Inl (OtherError ''TimeoutError''), [''list'', ''get''])"
    by (simp add: read_sheet_data_def timeout_reads_def)
  have b: "snapshot_for (timeout_reads [rev_at ''rev-1'' 2 5]) (Some ''rev-1'') [''list'']
     = (Inl (OtherError ''TimeoutError''), [''list'', ''get''])"
    by (simp add: snapshot_for_def a)
  show ?thesis by (simp add: a b find_best_timeout_reads_one)
qed

text \<open>
  Claim C3, as amended. For any two resolved identifiers that are neither
  \<^verbatim>\<open>None\<close> nor the empty string, on the same state of the remote side, the iteration
  stores the same grid: the read request names the live source sheet and its range,
  never the revision.
\<close>

theorem snapshot_ignores_revision:
  assumes "truthy r1" and "truthy r2"
  shows "snapshot_for svc r1 w = snapshot_for svc r2 w"
  using assms by (simp add: snapshot_for_def)

theorem snapshot_ignores_revision_witness:
  "snapshot_for (single_page [] [[''x'']]) (Some ''rev-1'') ()
     = snapshot_for (single_page [] [[''x'']]) (Some ''rev-2'') ()"
proof -
  have h1: "truthy (Some ''rev-1'')" by simp
  have h2: "truthy (Some ''rev-2'')" by simp
  show ?thesis by (rule snapshot_ignores_revision [OF h1 h2])
qed

text \<open>
  Claim C3 as stated fails for the empty identifier: a listing whose only revision has
  the identifier \<^verbatim>\<open>''\<close> resolves to it, the test \<^verbatim>\<open>if revision_id:\<close> is false, and the
  empty grid is stored, while any other identifier stores the live grid.
\<close>

theorem empty_identifier_stores_nothing:
  "find_best_revision (single_page [rev_at [] 2 5] [[''x'']]) SOURCE_SPREADSHEET_ID
       eastern_2200 () = Some (Inr (Some []), ())
   \<and> main_loop (single_page [rev_at [] 2 5] [[''x'']]) [eastern_2200] [] ()
       = Some (Inr [(eastern_2200, [])], ())
   \<and> find_best_revision (single_page [rev_at ''rev-1'' 2 5] [[''x'']]) SOURCE_SPREADSHEET_ID
       eastern_2200 () = Some (Inr (Some ''rev-1''), ())
   \<and> main_loop (single_page [rev_at ''rev-1'' 2 5] [[''x'']]) [eastern_2200] [] ()
       = Some (Inr [(eastern_2200, [[''x'']])], ())"
proof -
  have f1: "find_best_revision (single_page [rev_at [] 2 5] [[''x'']]) SOURCE_SPREADSHEET_ID
       eastern_2200 () = Some (Inr (Some []), ())"
    by (simp add: find_best_revision_def fetch_single_page select_revision_def fixture_times)
  have f2: "find_best_revision (single_page [rev_at ''rev-1'' 2 5] [[''x'']])
       SOURCE_SPREADSHEET_ID eastern_2200 () = Some (Inr (Some ''rev-1''), ())"
    by (simp add: find_best_revision_def fetch_single_page select_revision_def fixture_times)
  have s1: "snapshot_for (single_page [rev_at [] 2 5] [[''x'']]) (Some []) () = (Inr [], ())"
    by (simp add: snapshot_for_def)
  have s2: "snapshot_for (single_page [rev_at ''rev-1'' 2 5] [[''x'']]) (Some ''rev-1'') ()
       = (Inr [[''x'']], ())"
    by (simp add: snapshot_for_def read_sheet_data_def single_page_def)
  show ?thesis by (simp add: f1 f2 s1 s2)
qed

section \<open>Properties of the Orchestrator\<close>

lemma dict_set_keys:
  "instant_of ` fst ` set (dict_set acc k v) = insert (instant_of k) (instant_of ` fst ` set acc)"
  by (induction acc k v rule: dict_set.induct) auto

lemma dict_set_key_list:
  "map (instant_of \<circ> fst) (dict_set acc k v)
     = (if instant_of k \<in> instant_of ` fst ` set acc then map (instant_of \<circ> fst) acc
        else map (instant_of \<circ> fst) acc @ [instant_of k])"
  by (induction acc k v rule: dict_set.induct) (auto simp add: image_iff)

lemma dict_set_distinct:
  "distinct (map (instant_of \<circ> fst) acc) \<Longrightarrow> distinct (map (instant_of \<circ> fst) (dict_set acc k v))"
  by (simp add: dict_set_key_list image_iff)

lemma dict_get_set_same: "dict_get (dict_set acc k v) k = Some v"
  by (induction acc k v rule: dict_set.induct) auto

lemma dict_get_set_other:
  "instant_of k' \<noteq> instant_of k \<Longrightarrow> dict_get (dict_set acc k v) k' = dict_get acc k'"
  by (induction acc k v rule: dict_set.induct) auto

lemma main_loop_Cons_Some:
  assumes "main_loop svc (d # ds) acc w = Some (Inr acc', w')"
  obtains rid w1 v w2 where
    "find_best_revision svc SOURCE_SPREADSHEET_ID d w = Some (Inr rid, w1)"
    "snapshot_for svc rid w1 = (Inr v, w2)"
    "main_loop svc ds (dict_set acc d v) w2 = Some (Inr acc', w')"
  using assms
  by (auto split: option.splits sum.splits prod.splits)

lemma main_loop_keys:
  "main_loop svc ds acc w = Some (Inr acc', w') \<Longrightarrow>
     instant_of ` fst ` set acc' = instant_of ` fst ` set acc \<union> instant_of ` set ds
     \<and> (distinct (map (instant_of \<circ> fst) acc) \<longrightarrow> distinct (map (instant_of \<circ> fst) acc'))"
proof (induction ds arbitrary: acc w)
  case Nil
  then show ?case by simp
next
  case (Cons d ds)
  from Cons.prems obtain v w2 where
    r: "main_loop svc ds (dict_set acc d v) w2 = Some (Inr acc', w')"
    by (rule main_loop_Cons_Some)
  from Cons.IH [OF r] have
    k: "instant_of ` fst ` set acc'
          = instant_of ` fst ` set (dict_set acc d v) \<union> instant_of ` set ds"
    and dd: "distinct (map (instant_of \<circ> fst) (dict_set acc d v))
          \<longrightarrow> distinct (map (instant_of \<circ> fst) acc')"
    by blast+
  have "instant_of ` fst ` set acc' = instant_of ` fst ` set acc \<union> instant_of ` set (d # ds)"
    unfolding k dict_set_keys by simp
  moreover have "distinct (map (instant_of \<circ> fst) acc)
          \<longrightarrow> distinct (map (instant_of \<circ> fst) acc')"
    using dd dict_set_distinct by blast
  ultimately show ?case by (rule conjI)
qed

lemma main_loop_other_key:
  "main_loop svc ds acc w = Some (Inr acc', w') \<Longrightarrow>
     instant_of k \<notin> instant_of ` set ds \<Longrightarrow> dict_get acc' k = dict_get acc k"
proof (induction ds arbitrary: acc w)
  case Nil
  then show ?case by simp
next
  case (Cons d ds)
  from Cons.prems(1) obtain v w2 where
    r: "main_loop svc ds (dict_set acc d v) w2 = Some (Inr acc', w')"
    by (rule main_loop_Cons_Some)
  have "instant_of k \<notin> instant_of ` set ds" and ne: "instant_of k \<noteq> instant_of d"
    using Cons.prems(2) by auto
  from Cons.IH [OF r this(1)] ne show ?case
    by (simp add: dict_get_set_other)
qed

lemma main_loop_append:
  "main_loop svc (xs @ ys) acc w =
     (case main_loop svc xs acc w of
        None \<Rightarrow> None
      | Some (Inl e, w1) \<Rightarrow> Some (Inl e, w1)
      | Some (Inr acc1, w1) \<Rightarrow> main_loop svc ys acc1 w1)"
  by (induction xs arbitrary: acc w)
     (auto split: option.splits sum.splits prod.splits)

lemma main_loop_failed_iteration:
  assumes "main_loop svc (d # post) acc1 w1 = Some (Inr acc, w')"
    and "instant_of d \<notin> instant_of ` set post"
    and "find_best_revision svc SOURCE_SPREADSHEET_ID d w1 = Some (Inr rid, w2)"
    and "\<not> truthy rid
         \<or> fst (read_sheet_data svc SOURCE_SPREADSHEET_ID (SOURCE_SHEET_NAME @ ''!A:L'') w2)
             = Inr []"
  shows "dict_get acc d = Some []"
proof -
  from assms(1) obtain rid' w1' v w3 where
    f: "find_best_revision svc SOURCE_SPREADSHEET_ID d w1 = Some (Inr rid', w1')"
    and s: "snapshot_for svc rid' w1' = (Inr v, w3)"
    and r: "main_loop svc post (dict_set acc1 d v) w3 = Some (Inr acc, w')"
    by (rule main_loop_Cons_Some)
  from f assms(3) have eq: "rid' = rid" "w1' = w2" by simp_all
  have "v = []"
    using s assms(4) unfolding eq
    by (auto simp add: snapshot_for_def split: if_splits prod.splits sum.splits)
  with main_loop_other_key [OF r assms(2)] show ?thesis
    by (simp add: dict_get_set_same)
qed

text \<open>
  Claim C6. When the loop over the target dates has completed with the accumulator
  \<open>acc\<close>: the instants of its keys are exactly the instants of the target dates, no two
  keys are the same instant, and for every iteration (the dates before it, \<open>pre\<close>, having
  been processed up to the remote state \<open>w1\<close>) in which the resolver returned no usable
  identifier or the read returned no rows, the entry of that date is present and is the
  empty grid.
\<close>

theorem accumulator_complete:
  assumes "main_loop svc dates [] w = Some (Inr acc, w')"
  shows "instant_of ` fst ` set acc = instant_of ` set dates
       \<and> distinct (map (instant_of \<circ> fst) acc)
       \<and> (\<forall>pre d post acc1 w1 rid w2.
            dates = pre @ d # post \<and> instant_of d \<notin> instant_of ` set post
            \<and> main_loop svc pre [] w = Some (Inr acc1, w1)
            \<and> find_best_revision svc SOURCE_SPREADSHEET_ID d w1 = Some (Inr rid, w2)
            \<and> (\<not> truthy rid
                \<or> fst (read_sheet_data svc SOURCE_SPREADSHEET_ID
                         (SOURCE_SHEET_NAME @ ''!A:L'') w2) = Inr [])
            \<longrightarrow> dict_get acc d = Some [])"
proof -
  have a: "instant_of ` fst ` set acc = instant_of ` set dates"
    and b: "distinct (map (instant_of \<circ> fst) acc)"
    using main_loop_keys [OF assms] by simp_all
  have c: "dict_get acc d = Some []"
    if "dates = pre @ d # post" "instant_of d \<notin> instant_of ` set post"
      "main_loop svc pre [] w = Some (Inr acc1, w1)"
      "find_best_revision svc SOURCE_SPREADSHEET_ID d w1 = Some (Inr rid, w2)"
      "\<not> truthy rid
         \<or> fst (read_sheet_data svc SOURCE_SPREADSHEET_ID (SOURCE_SHEET_NAME @ ''!A:L'') w2)
             = Inr []"
    for pre d post acc1 w1 rid w2
  proof -
    have "main_loop svc (d # post) acc1 w1 = Some (Inr acc, w')"
      using assms that(1,3) by (simp add: main_loop_append)
    then show ?thesis
      using that(2,4,5) by (rule main_loop_failed_iteration)
  qed
  show ?thesis
  proof (intro conjI allI impI)
    show "instant_of ` fst ` set acc = instant_of ` set dates" by (rule a)
    show "distinct (map (instant_of \<circ> fst) acc)" by (rule b)
  next
    fix pre d post acc1 w1 rid w2
    assume h: "dates = pre @ d # post \<and> instant_of d \<notin> instant_of ` set post
            \<and> main_loop svc pre [] w = Some (Inr acc1, w1)
            \<and> find_best_revision svc SOURCE_SPREADSHEET_ID d w1 = Some (Inr rid, w2)
            \<and> (\<not> truthy rid
                \<or> fst (read_sheet_data svc SOURCE_SPREADSHEET_ID
                         (SOURCE_SHEET_NAME @ ''!A:L'') w2) = Inr [])"
    note h1 = h [THEN conjunct1]
    note h2 = h [THEN conjunct2, THEN conjunct1]
    note h3 = h [THEN conjunct2, THEN conjunct2, THEN conjunct1]
    note h4 = h [THEN conjunct2, THEN conjunct2, THEN conjunct2, THEN conjunct1]
    note h5 = h [THEN conjunct2, THEN conjunct2, THEN conjunct2, THEN conjunct2]
    show "dict_get acc d = Some []" by (rule c [OF h1 h2 h3 h4 h5])
  qed
qed

lemma find_best_failing_reads_empty:
  "find_best_revision (failing_reads []) fid target w = Some (Inr None, w @ [''list''])"
  by (simp add: find_best_revision_def fetch_failing_reads select_revision_def)

lemma snapshot_failing_reads:
  "snapshot_for (failing_reads revs) (Some ''rev-1'') w = (Inr [], w @ [''get''])"
  by (simp add: snapshot_for_def read_sheet_data_def failing_reads_def)

theorem accumulator_complete_witness:
  "main_loop (failing_reads [rev_at ''rev-1'' 2 5]) [eastern_2200] [] []
     = Some (Inr [(eastern_2200, [])], [''list'', ''get''])
   \<and> instant_of ` fst ` set [(eastern_2200, [] :: grid)] = instant_of ` set [eastern_2200]
   \<and> distinct (map (instant_of \<circ> fst) [(eastern_2200, [] :: grid)])
   \<and> dict_get [(eastern_2200, [])] eastern_2200 = Some []"
proof -
  have e: "main_loop (failing_reads [rev_at ''rev-1'' 2 5]) [eastern_2200] [] []
     = Some (Inr [(eastern_2200, [])], [''list'', ''get''])"
    by (simp add: find_best_failing_reads_one snapshot_failing_reads)
  have p1: "[eastern_2200] = [] @ eastern_2200 # []" by simp
  have p2: "instant_of eastern_2200 \<notin> instant_of ` set []" by simp
  have p3: "main_loop (failing_reads [rev_at ''rev-1'' 2 5]) [] [] [] = Some (Inr [], [])"
    by simp
  have p4: "find_best_revision (failing_reads [rev_at ''rev-1'' 2 5]) SOURCE_SPREADSHEET_ID
            eastern_2200 [] = Some (Inr (Some ''rev-1''), [''list''])"
    by (simp add: find_best_failing_reads_one)
  have p5: "\<not> truthy (Some ''rev-1'')
          \<or> fst (read_sheet_data (failing_reads [rev_at ''rev-1'' 2 5]) SOURCE_SPREADSHEET_ID
                   (SOURCE_SHEET_NAME @ ''!A:L'') [''list'']) = Inr []"
    by (simp add: read_sheet_data_def failing_reads_def)
  note ac = accumulator_complete [OF e]
  note a = ac [THEN conjunct1]
  note b = ac [THEN conjunct2, THEN conjunct1]
  note c = ac [THEN conjunct2, THEN conjunct2, rule_format,
      of "[]" eastern_2200 "[]" "[]" "[]" "Some ''rev-1''" "[''list'']"]
  have d: "dict_get [(eastern_2200, [])] eastern_2200 = Some []"
    by (rule c) (intro conjI p1 p2 p3 p4 p5)
  from e a b d show ?thesis by - (intro conjI, assumption+)
qed

section \<open>Properties of the Date Generator\<close>

text \<open>
  The library adds a day through the ordinal of the date. Up to November, where the loop
  runs, \<open>add_one_day\<close> is that addition: the ordinal grows by one.
\<close>

lemma toordinal_add_one_day:
  assumes "month dt = m" and "m \<in> {1, 2, 3, 4, 5, 6, 7, 8, 9, 10, 11}"
    and "1 \<le> day dt" and "day dt \<le> days_in_month (year dt) m"
  shows "toordinal (add_one_day dt) = toordinal dt + 1"
proof (cases "day dt < days_in_month (year dt) m")
  case True
  then show ?thesis
    using assms(1) by (simp add: toordinal_def add_one_day_def ymd2ord_def)
next
  case False
  with assms(4) have d: "day dt = days_in_month (year dt) m" by simp
  from assms(2) have "days_before_month (year dt) (m + 1)
      = days_before_month (year dt) m + days_in_month (year dt) m"
    by (auto simp add: days_before_month_def days_in_month_def)
  moreover from assms(2) have "m < 12" by auto
  ultimately show ?thesis
    using assms(1) d by (simp add: toordinal_def add_one_day_def ymd2ord_def)
qed

lemma weeknight_loop_unfold:
  "weeknight_loop tz c e acc =
     (if dt_le c e then
        weeknight_loop tz (add_one_day c) e
          (if weekday c \<le> 4 then acc @ [localize tz c] else acc)
      else acc)"
  by (rule weeknight_loop.simps)

lemma summer_month: "m = 6 \<or> m = 7 \<or> m = 8 \<Longrightarrow> days_in_month y m = (if m = 6 then 30 else 31)"
  by (auto simp add: days_in_month_def)

lemma add_one_day_in_month:
  "m = 6 \<or> m = 7 \<or> m = 8 \<Longrightarrow> d < (if m = 6 then 30 else 31)
     \<Longrightarrow> add_one_day (night y m d) = night y m (d + 1)"
  by (auto simp add: add_one_day_def night_def days_in_month_def)

lemma add_one_day_month_end:
  "add_one_day (night y 6 30) = night y 7 1" "add_one_day (night y 7 31) = night y 8 1"
  by (simp_all add: add_one_day_def night_def days_in_month_def)

lemma loop_step:
  "dt_le c e \<Longrightarrow> weeknight_loop tz c e acc = weeknight_loop tz (add_one_day c) e (acc @ picks tz [c])"
  by (subst weeknight_loop_unfold) (simp add: picks_def)

lemma picks_append: "picks tz (xs @ ys) = picks tz xs @ picks tz ys"
  by (simp add: picks_def)

lemma loop_run:
  assumes "m = 6 \<or> m = 7 \<or> m = 8"
  shows "a + int k \<le> (if m = 6 then 30 else 31) \<Longrightarrow>
         (\<And>d. a \<le> d \<Longrightarrow> d < a + int k \<Longrightarrow> dt_le (night y m d) e) \<Longrightarrow>
         weeknight_loop tz (night y m a) e acc
           = weeknight_loop tz (night y m (a + int k)) e
               (acc @ picks tz (map (night y m) [a..a + int k - 1]))"
proof (induction k arbitrary: a acc)
  case 0
  then show ?case by (simp add: picks_def)
next
  case (Suc k)
  have le: "dt_le (night y m a) e" using Suc.prems(2) [of a] by simp
  have "a < (if m = 6 then 30 else 31)" using Suc.prems(1) by (simp split: if_splits)
  then have nx: "add_one_day (night y m a) = night y m (a + 1)"
    using assms by (rule add_one_day_in_month [rotated])
  have b: "a + 1 + int k \<le> (if m = 6 then 30 else 31)"
    using Suc.prems(1) by (simp split: if_splits)
  have c: "dt_le (night y m d) e" if "a + 1 \<le> d" "d < a + 1 + int k" for d
    using Suc.prems(2) [of d] that by simp
  have ih: "weeknight_loop tz (night y m (a + 1)) e (acc @ picks tz [night y m a])
           = weeknight_loop tz (night y m (a + 1 + int k)) e
               ((acc @ picks tz [night y m a])
                  @ picks tz (map (night y m) [a + 1..a + 1 + int k - 1]))"
    using b c by (rule Suc.IH)
  have eq: "a + int (Suc k) = a + 1 + int k" by simp
  have up: "[a..a + 1 + int k - 1] = a # [a + 1..a + 1 + int k - 1]"
    by (rule upto_rec1) simp
  show ?case
    unfolding eq loop_step [OF le] nx ih up by (simp add: picks_def)
qed

lemma dt_le_summer:
  "dt_le (night y 6 d) (summer_end y)" "dt_le (night y 7 d) (summer_end y)"
  "d \<le> 30 \<Longrightarrow> dt_le (night y 8 d) (summer_end y)"
  "\<not> dt_le (night y 8 31) (summer_end y)"
  by (auto simp add: dt_le_def night_def summer_end_def)

lemma loop_stop: "\<not> dt_le c e \<Longrightarrow> weeknight_loop tz c e acc = acc"
  by (subst weeknight_loop_unfold) simp

lemma picks_snoc: "picks tz xs @ picks tz [x] = picks tz (xs @ [x])"
  by (simp add: picks_def)

lemma loop_summer:
  "weeknight_loop tz (night y 6 1) (summer_end y) [] = picks tz (summer_days y)"
proof -
  let ?e = "summer_end y"
  have u30: "[1..30] = [1..29] @ [30::int]" by (rule upto_rec2 [of 1 30, simplified])
  have u31: "[1..31] = [1..30] @ [31::int]" by (rule upto_rec2 [of 1 31, simplified])
  have j: "picks tz (map (night y m) [1..29]) @ picks tz [night y m 30]
             = picks tz (map (night y m) [1..30])" for m
    unfolding u30 by (simp add: picks_def del: upto_rec_numeral)
  have j7: "picks tz (map (night y 7) [1..30]) @ picks tz [night y 7 31]
             = picks tz (map (night y 7) [1..31])"
    unfolding u31 by (simp add: picks_def del: upto_rec_numeral)
  have r6: "weeknight_loop tz (night y 6 1) ?e acc
      = weeknight_loop tz (night y 6 30) ?e (acc @ picks tz (map (night y 6) [1..29]))" for acc
    using loop_run [where m = 6 and a = 1 and k = 29 and e = ?e and y = y and tz = tz]
    by (simp add: dt_le_summer del: upto_rec_numeral)
  have s6: "weeknight_loop tz (night y 6 30) ?e acc
      = weeknight_loop tz (night y 7 1) ?e (acc @ picks tz [night y 6 30])" for acc
    by (simp add: loop_step dt_le_summer add_one_day_month_end)
  have m6: "weeknight_loop tz (night y 6 1) ?e acc
      = weeknight_loop tz (night y 7 1) ?e (acc @ picks tz (map (night y 6) [1..30]))" for acc
    unfolding r6 s6 by (simp add: j del: upto_rec_numeral)
  have r7: "weeknight_loop tz (night y 7 1) ?e acc
      = weeknight_loop tz (night y 7 31) ?e (acc @ picks tz (map (night y 7) [1..30]))" for acc
    using loop_run [where m = 7 and a = 1 and k = 30 and e = ?e and y = y and tz = tz]
    by (simp add: dt_le_summer del: upto_rec_numeral)
  have s7: "weeknight_loop tz (night y 7 31) ?e acc
      = weeknight_loop tz (night y 8 1) ?e (acc @ picks tz [night y 7 31])" for acc
    by (simp add: loop_step dt_le_summer add_one_day_month_end)
  have m7: "weeknight_loop tz (night y 7 1) ?e acc
      = weeknight_loop tz (night y 8 1) ?e (acc @ picks tz (map (night y 7) [1..31]))" for acc
    unfolding r7 s7 by (simp add: j7 del: upto_rec_numeral)
  have r8: "weeknight_loop tz (night y 8 1) ?e acc
      = weeknight_loop tz (night y 8 30) ?e (acc @ picks tz (map (night y 8) [1..29]))" for acc
    using loop_run [where m = 8 and a = 1 and k = 29 and e = ?e and y = y and tz = tz]
    by (simp add: dt_le_summer del: upto_rec_numeral)
  have n8: "add_one_day (night y 8 30) = night y 8 31"
    using add_one_day_in_month [of 8 30 y] by simp
  have s8: "weeknight_loop tz (night y 8 30) ?e acc = acc @ picks tz [night y 8 30]" for acc
    by (simp add: loop_step dt_le_summer n8 loop_stop)
  have m8: "weeknight_loop tz (night y 8 1) ?e acc
      = acc @ picks tz (map (night y 8) [1..30])" for acc
    unfolding r8 s8 by (simp add: j del: upto_rec_numeral)
  show ?thesis
    unfolding m6 m7 m8 summer_days_def by (simp add: picks_append del: upto_rec_numeral)
qed

lemma get_weeknight_dates_valid:
  assumes "1 \<le> y" and "y \<le> 9999"
  shows "get_weeknight_dates tz now_year (Some y) = Inr (expected_weeknights tz y)"
proof -
  have a: "datetime_new y 6 1 22 0 0 = Inr (night y 6 1)"
    using assms by (simp add: datetime_new_def c_int_def night_def days_in_month_def)
  have b: "datetime_new y 8 30 23 59 59 = Inr (summer_end y)"
    using assms by (simp add: datetime_new_def c_int_def summer_end_def days_in_month_def)
  show ?thesis
    by (simp add: get_weeknight_dates_def a b loop_summer expected_weeknights_def picks_def)
qed

lemma naive_us_night:
  "m = 6 \<or> m = 7 \<or> m = 8 \<Longrightarrow>
   naive_us (night y m d)
     = ((days_before_year y + (if is_leap y then 1 else 0)
          + (if m = 6 then 151 else if m = 7 then 181 else 212) + d) * 24 + 22) * 3600000000"
  by (auto simp add: naive_us_def toordinal_def ymd2ord_def days_before_month_def night_def)

lemma day_apart_same_month:
  "m = 6 \<or> m = 7 \<or> m = 8 \<Longrightarrow> d < d' \<Longrightarrow> day_apart (night y m d) (night y m d')"
  by (simp add: day_apart_def naive_us_night)

lemma day_apart_next_month:
  "1 \<le> d' \<Longrightarrow> d \<le> 30 \<Longrightarrow> day_apart (night y 6 d) (night y 7 d')"
  "1 \<le> d' \<Longrightarrow> d \<le> 30 \<Longrightarrow> day_apart (night y 6 d) (night y 8 d')"
  "1 \<le> d' \<Longrightarrow> d \<le> 31 \<Longrightarrow> day_apart (night y 7 d) (night y 8 d')"
  by (simp_all add: day_apart_def naive_us_night)

lemma sorted_month:
  assumes "m = 6 \<or> m = 7 \<or> m = 8"
  shows "sorted_wrt day_apart (map (night y m) [1..n])"
proof -
  have "sorted_wrt (\<lambda>d d'. day_apart (night y m d) (night y m d')) [1..n]"
    by (rule sorted_wrt_mono_rel [of _ "(<)"])
       (simp_all add: day_apart_same_month [OF assms] del: upto_rec_numeral)
  then show ?thesis by (simp add: sorted_wrt_map del: upto_rec_numeral)
qed

lemma sorted_summer_days: "sorted_wrt day_apart (summer_days y)"
  unfolding summer_days_def
  by (auto simp add: sorted_wrt_append sorted_month day_apart_next_month
      simp del: upto_rec_numeral)

lemma instant_of_localize_less:
  assumes "\<forall>dt. - 43200 < tz dt \<and> tz dt < 43200" and "day_apart a b"
  shows "instant_of (localize tz a) < instant_of (localize tz b)"
proof -
  have "tz b - tz a < 86400"
    using assms(1) [rule_format, of a] assms(1) [rule_format, of b] by linarith
  then have "(tz b - tz a) * 1000000 < 86400000000" by simp
  then show ?thesis
    using assms(2) by (simp add: instant_of_def localize_def day_apart_def algebra_simps)
qed

lemma sorted_expected:
  assumes "\<forall>dt. - 43200 < tz dt \<and> tz dt < 43200"
  shows "sorted_wrt (\<lambda>a b. instant_of a < instant_of b) (expected_weeknights tz y)"
proof -
  have "sorted_wrt day_apart (filter (\<lambda>dt. weekday dt \<le> 4) (summer_days y))"
    by (rule sorted_wrt_filter) (rule sorted_summer_days)
  then have "sorted_wrt (\<lambda>a b. instant_of (localize tz a) < instant_of (localize tz b))
               (filter (\<lambda>dt. weekday dt \<le> 4) (summer_days y))"
    by (rule sorted_wrt_mono_rel [rotated]) (rule instant_of_localize_less [OF assms])
  then show ?thesis
    by (simp add: expected_weeknights_def sorted_wrt_map)
qed

lemma strictly_increasing_distinct:
  "sorted_wrt (\<lambda>a b. instant_of a < instant_of b) xs \<Longrightarrow> distinct xs"
  by (induction xs) auto

lemma expected_fields:
  assumes "a \<in> set (expected_weeknights tz y)"
  shows "year (local_fields a) = y \<and> month (local_fields a) \<in> {6, 7, 8}
       \<and> 1 \<le> day (local_fields a) \<and> day (local_fields a) \<le> 31
       \<and> (month (local_fields a) = 8 \<longrightarrow> day (local_fields a) \<le> 30)
       \<and> 0 \<le> weekday (local_fields a) \<and> weekday (local_fields a) \<le> 4
       \<and> hour (local_fields a) = 22 \<and> minute (local_fields a) = 0
       \<and> second (local_fields a) = 0 \<and> microsecond (local_fields a) = 0
       \<and> utcoffset a = tz (local_fields a)"
proof -
  from assms obtain dt where dt: "dt \<in> set (summer_days y)" "weekday dt \<le> 4"
    "a = localize tz dt"
    by (auto simp add: expected_weeknights_def)
  have "0 \<le> weekday dt" by (simp add: weekday_def)
  moreover from dt(1) have "year dt = y \<and> month dt \<in> {6, 7, 8} \<and> 1 \<le> day dt \<and> day dt \<le> 31
      \<and> (month dt = 8 \<longrightarrow> day dt \<le> 30)
      \<and> hour dt = 22 \<and> minute dt = 0 \<and> second dt = 0 \<and> microsecond dt = 0"
    by (auto simp add: summer_days_def night_def simp del: upto_rec_numeral)
  ultimately show ?thesis using dt(2,3) by (simp add: localize_def)
qed

lemma get_weeknight_dates_invalid:
  assumes "\<not> (1 \<le> y \<and> y \<le> 9999)"
  shows "get_weeknight_dates tz now_year (Some y)
           = (if - 2147483648 \<le> y \<and> y \<le> 2147483647 then Inl ValueError
              else Inl OverflowError)"
  using assms by (auto simp add: get_weeknight_dates_def datetime_new_def c_int_def)

lemma local_fields_expected:
  "map local_fields (expected_weeknights tz y)
     = filter (\<lambda>dt. weekday dt \<le> 4) (summer_days y)"
  by (simp add: expected_weeknights_def localize_def comp_def)

lemma sorted_local_expected:
  "sorted_wrt day_apart (map local_fields (expected_weeknights tz y))"
  unfolding local_fields_expected by (rule sorted_wrt_filter) (rule sorted_summer_days)

lemma day_apart_distinct: "sorted_wrt day_apart xs \<Longrightarrow> distinct xs"
  by (induction xs) (auto simp add: day_apart_def)

lemma distinct_expected: "distinct (expected_weeknights tz y)"
proof -
  have "distinct (map local_fields (expected_weeknights tz y))"
    using sorted_local_expected by (rule day_apart_distinct)
  then show ?thesis by (simp add: distinct_map)
qed

text \<open>
  Claim C4, as amended. For a year from 1 to 9999 the Date Generator returns exactly
  the dates from June 1 through August 30 of that year whose weekday is Monday to
  Friday, in calendar order and without duplicates, each at 22:00:00 local time with the
  offset that the zone table gives at that local time; consecutive local datetimes are
  at least one day apart, and the sequence is strictly increasing as instants for any
  zone whose offsets stay within 12 hours of UTC. For any other year the constructor
  raises an exception and no sequence is returned: \<^verbatim>\<open>ValueError\<close> when the year fits a
  C \<^verbatim>\<open>int\<close>, \<^verbatim>\<open>OverflowError\<close> when it does not.
\<close>

theorem weeknight_dates_exact:
  "get_weeknight_dates tz now_year (Some y)
     = (if 1 \<le> y \<and> y \<le> 9999 then Inr (expected_weeknights tz y)
        else if - 2147483648 \<le> y \<and> y \<le> 2147483647 then Inl ValueError
        else Inl OverflowError)
   \<and> sorted_wrt day_apart (map local_fields (expected_weeknights tz y))
   \<and> distinct (expected_weeknights tz y)
   \<and> ((\<forall>dt. - 43200 < tz dt \<and> tz dt < 43200) \<longrightarrow>
        sorted_wrt (\<lambda>a b. instant_of a < instant_of b) (expected_weeknights tz y))
   \<and> (\<forall>a\<in>set (expected_weeknights tz y).
        year (local_fields a) = y \<and> month (local_fields a) \<in> {6, 7, 8}
        \<and> 1 \<le> day (local_fields a) \<and> day (local_fields a) \<le> 31
        \<and> (month (local_fields a) = 8 \<longrightarrow> day (local_fields a) \<le> 30)
        \<and> 0 \<le> weekday (local_fields a) \<and> weekday (local_fields a) \<le> 4
        \<and> hour (local_fields a) = 22 \<and> minute (local_fields a) = 0
        \<and> second (local_fields a) = 0 \<and> microsecond (local_fields a) = 0
        \<and> utcoffset a = tz (local_fields a))"
proof -
  have c1: "get_weeknight_dates tz now_year (Some y)
     = (if 1 \<le> y \<and> y \<le> 9999 then Inr (expected_weeknights tz y)
        else if - 2147483648 \<le> y \<and> y \<le> 2147483647 then Inl ValueError
        else Inl OverflowError)"
  proof (cases "1 \<le> y \<and> y \<le> 9999")
    case True
    then show ?thesis by (simp add: get_weeknight_dates_valid)
  next
    case False
    then show ?thesis by (simp only: get_weeknight_dates_invalid [OF False] if_False)
  qed
  have c2: "sorted_wrt day_apart (map local_fields (expected_weeknights tz y))"
    by (rule sorted_local_expected)
  have c3: "distinct (expected_weeknights tz y)" by (rule distinct_expected)
  have c4: "(\<forall>dt. - 43200 < tz dt \<and> tz dt < 43200) \<longrightarrow>
        sorted_wrt (\<lambda>a b. instant_of a < instant_of b) (expected_weeknights tz y)"
    by (rule impI) (rule sorted_expected)
  have c5: "\<forall>a\<in>set (expected_weeknights tz y).
        year (local_fields a) = y \<and> month (local_fields a) \<in> {6, 7, 8}
        \<and> 1 \<le> day (local_fields a) \<and> day (local_fields a) \<le> 31
        \<and> (month (local_fields a) = 8 \<longrightarrow> day (local_fields a) \<le> 30)
        \<and> 0 \<le> weekday (local_fields a) \<and> weekday (local_fields a) \<le> 4
        \<and> hour (local_fields a) = 22 \<and> minute (local_fields a) = 0
        \<and> second (local_fields a) = 0 \<and> microsecond (local_fields a) = 0
        \<and> utcoffset a = tz (local_fields a)"
    by (rule ballI) (rule expected_fields)
  show ?thesis by (intro conjI) (rule c1, rule c2, rule c3, rule c4, rule c5)
qed

theorem weeknight_dates_exact_witness:
  "get_weeknight_dates (\<lambda>dt. - 14400) 2024 (Some 2024)
     = Inr (expected_weeknights (\<lambda>dt. - 14400) 2024)
   \<and> sorted_wrt (\<lambda>a b. instant_of a < instant_of b) (expected_weeknights (\<lambda>dt. - 14400) 2024)
   \<and> distinct (expected_weeknights (\<lambda>dt. - 14400) 2024)"
proof -
  have h3: "\<forall>dt::datetime. - 43200 < (- 14400 :: int) \<and> (- 14400 :: int) < 43200" by simp
  note t = weeknight_dates_exact [of "\<lambda>dt. - 14400" 2024 2024]
  have a: "get_weeknight_dates (\<lambda>dt. - 14400) 2024 (Some 2024)
     = Inr (expected_weeknights (\<lambda>dt. - 14400) 2024)"
    using t [THEN conjunct1] by simp
  have b: "sorted_wrt (\<lambda>a b. instant_of a < instant_of b)
             (expected_weeknights (\<lambda>dt. - 14400) 2024)"
    using t [THEN conjunct2, THEN conjunct2, THEN conjunct2, THEN conjunct1] h3 by blast
  note c = t [THEN conjunct2, THEN conjunct2, THEN conjunct1]
  from a b c show ?thesis by - (intro conjI, assumption+)
qed

text \<open>
  Claim C4 as stated, for every year, fails outside the years a datetime can hold: the
  constructor raises \<^verbatim>\<open>ValueError\<close>, or \<^verbatim>\<open>OverflowError\<close> from 2^31 on, and no date
  is generated.
\<close>

theorem year_out_of_range:
  "get_weeknight_dates (\<lambda>dt. - 14400) 2024 (Some 10000) = Inl ValueError
   \<and> get_weeknight_dates (\<lambda>dt. - 14400) 2024 (Some 0) = Inl ValueError
   \<and> get_weeknight_dates (\<lambda>dt. - 14400) 2024 (Some 2147483648) = Inl OverflowError"
  by (simp add: get_weeknight_dates_def datetime_new_def c_int_def)

end
